theory Spec2Isabelle
  imports Complex_Main
begin

section \<open>JavaScript values\<close>

text \<open>
  The plugin inspects responses and thrown errors of type \<^verbatim>\<open>any\<close>. They are modelled
  as a datatype of JavaScript values. A number is a real (NaN and the infinities are not
  represented). An object is the list of its own enumerable properties, each name once,
  in enumeration order; an array is the list of its items.
\<close>

datatype jsval =
    JUndefined
  | JNull
  | JBool bool
  | JNum real
  | JStr string
  | JArr "jsval list"
  | JObj "(string \<times> jsval) list"

text \<open>Truthiness, as used by \<^verbatim>\<open>if (x)\<close>, \<^verbatim>\<open>!x\<close> and \<^verbatim>\<open>x || y\<close>.\<close>

fun truthy :: "jsval \<Rightarrow> bool" where
  "truthy JUndefined = False"
| "truthy JNull = False"
| "truthy (JBool b) = b"
| "truthy (JNum n) = (n \<noteq> 0)"
| "truthy (JStr s) = (s \<noteq> [])"
| "truthy (JArr xs) = True"
| "truthy (JObj kvs) = True"

text \<open>
  Property access \<^verbatim>\<open>v.name\<close> for the data properties read by the plugin: an own
  property of an object, \<^verbatim>\<open>undefined\<close> otherwise. (On \<^verbatim>\<open>null\<close> and
  \<^verbatim>\<open>undefined\<close> JavaScript throws; every access of the source on a possibly nullish
  value is guarded, and the guards are part of the definitions below.)
\<close>

fun get_field :: "jsval \<Rightarrow> string \<Rightarrow> jsval" where
  "get_field (JObj kvs) name = (case map_of kvs name of Some v \<Rightarrow> v | None \<Rightarrow> JUndefined)"
| "get_field v name = JUndefined"

text \<open>\<^verbatim>\<open>a || b\<close> on values.\<close>

definition js_or :: "jsval \<Rightarrow> jsval \<Rightarrow> jsval" where
  "js_or a b = (if truthy a then a else b)"

text \<open>
  \<^verbatim>\<open>String.prototype.trim\<close>: white space and line terminators are removed from both
  ends. Characters are 8 bits wide here, so the white space of JavaScript is TAB, LF, VT,
  FF, CR, SPACE and NBSP.
\<close>

definition is_ws :: "char \<Rightarrow> bool" where
  "is_ws c = (c \<in> set [CHR 0x09, CHR 0x0A, CHR 0x0B, CHR 0x0C, CHR 0x0D, CHR 0x20, CHR 0xA0])"

definition trim :: "string \<Rightarrow> string" where
  "trim s = rev (dropWhile is_ws (rev (dropWhile is_ws s)))"

section \<open>The token cache\<close>

record TokenCacheEntry =
  token :: string
  sitekey :: jsval
  timestamp :: int
  expiresAt :: int

text \<open>
  \<^verbatim>\<open>const tokenCache = new Map<string, TokenCacheEntry>()\<close>. The key is whatever
  value the caller passes as site-key (declared a string); keys are compared as values.
  Times are the milliseconds of \<^verbatim>\<open>Date.now()\<close>, passed in explicitly.
\<close>

type_synonym tokenCache = "jsval \<rightharpoonup> TokenCacheEntry"

definition CACHE_LIFETIME_MS :: int where
  "CACHE_LIFETIME_MS = 120000"

definition CACHE_CLEANUP_INTERVAL_MS :: int where
  "CACHE_CLEANUP_INTERVAL_MS = 60000"

text \<open>
  \<^verbatim>\<open>getCachedToken(sitekey)\<close> at time \<open>now\<close>: the result (\<open>None\<close> for
  \<^verbatim>\<open>null\<close>) and the cache, from which an expired entry has been deleted.
\<close>

definition getCachedToken :: "tokenCache \<Rightarrow> jsval \<Rightarrow> int \<Rightarrow> string option \<times> tokenCache" where
  "getCachedToken cache k now =
     (case cache k of
        None \<Rightarrow> (None, cache)
      | Some entry \<Rightarrow>
          if now > expiresAt entry then (None, cache(k := None))
          else (Some (token entry), cache))"

definition cacheToken :: "tokenCache \<Rightarrow> jsval \<Rightarrow> string \<Rightarrow> int \<Rightarrow> tokenCache" where
  "cacheToken cache k tok now =
     cache(k \<mapsto> \<lparr>token = tok, sitekey = k, timestamp = now, expiresAt = now + CACHE_LIFETIME_MS\<rparr>)"

text \<open>\<^verbatim>\<open>cleanupExpiredTokens()\<close> at time \<open>now\<close>: the periodic sweep.\<close>

definition cleanupExpiredTokens :: "tokenCache \<Rightarrow> int \<Rightarrow> tokenCache" where
  "cleanupExpiredTokens cache now =
     (\<lambda>k. case cache k of
             None \<Rightarrow> None
           | Some entry \<Rightarrow> if now > expiresAt entry then None else Some entry)"

definition clearTokenCache :: "tokenCache \<Rightarrow> tokenCache" where
  "clearTokenCache cache = Map.empty"

section \<open>Challenge detection\<close>

text \<open>
  \<^verbatim>\<open>interface CaptchaChallenge\<close>. \<^verbatim>\<open>detectCaptchaChallenge\<close> copies the fields from
  a value of type \<^verbatim>\<open>any\<close>, so each field holds a JavaScript value
  (\<open>JUndefined\<close> when it is missing).
\<close>

record CaptchaChallenge =
  captcha_key :: jsval
  captcha_sitekey :: jsval
  captcha_service :: jsval
  captcha_rqdata :: jsval
  captcha_rqtoken :: jsval

text \<open>Optional chaining \<^verbatim>\<open>v?.name\<close>.\<close>

definition opt_field :: "jsval \<Rightarrow> string \<Rightarrow> jsval" where
  "opt_field v name = (if v = JUndefined \<or> v = JNull then JUndefined else get_field v name)"

text \<open>The object literal that both branches of \<^verbatim>\<open>detectCaptchaChallenge\<close> build.\<close>

definition challenge_from :: "jsval \<Rightarrow> CaptchaChallenge" where
  "challenge_from src =
     \<lparr>captcha_key = get_field src ''captcha_key'',
      captcha_sitekey = get_field src ''captcha_sitekey'',
      captcha_service = js_or (get_field src ''captcha_service'') (JStr ''hcaptcha''),
      captcha_rqdata = get_field src ''captcha_rqdata'',
      captcha_rqtoken = get_field src ''captcha_rqtoken''\<rparr>"

definition detectCaptchaChallenge :: "jsval \<Rightarrow> CaptchaChallenge option" where
  "detectCaptchaChallenge response =
     (if \<not> truthy response then None
      else if truthy (get_field response ''captcha_key'')
            \<or> truthy (get_field response ''captcha_sitekey'')
        then Some (challenge_from response)
      else if truthy (opt_field (get_field response ''body'') ''captcha_key'')
            \<or> truthy (opt_field (get_field response ''body'') ''captcha_sitekey'')
        then Some (challenge_from (get_field response ''body''))
      else None)"

text \<open>A value carries a field when it is an object with an own property of that name.\<close>

fun has_field :: "jsval \<Rightarrow> string \<Rightarrow> bool" where
  "has_field (JObj kvs) name = (name \<in> fst ` set kvs)"
| "has_field v name = False"

text \<open>
  The challenge fields (challenge key or site identifier) are present at the top level of
  the value or one level down, under its \<^verbatim>\<open>body\<close> field.
\<close>

definition challenge_fields_present :: "jsval \<Rightarrow> bool" where
  "challenge_fields_present response =
     (has_field response ''captcha_key'' \<or> has_field response ''captcha_sitekey''
      \<or> has_field (get_field response ''body'') ''captcha_key''
      \<or> has_field (get_field response ''body'') ''captcha_sitekey'')"

text \<open>The same, with a truthy value in one of the fields.\<close>

definition challenge_fields_set :: "jsval \<Rightarrow> bool" where
  "challenge_fields_set response =
     (truthy (get_field response ''captcha_key'') \<or> truthy (get_field response ''captcha_sitekey'')
      \<or> truthy (get_field (get_field response ''body'') ''captcha_key'')
      \<or> truthy (get_field (get_field response ''body'') ''captcha_sitekey''))"

section \<open>Solving services\<close>

record CaptchaBypassResult =
  success :: bool
  token :: "string option"
  error :: "string option"

definition solved :: "string option \<Rightarrow> CaptchaBypassResult" where
  "solved tok = \<lparr>success = True, token = tok, error = None\<rparr>"

definition failed :: "string \<Rightarrow> CaptchaBypassResult" where
  "failed msg = \<lparr>success = False, token = None, error = Some msg\<rparr>"

text \<open>Truthiness of an optional string: present and not empty.\<close>

fun str_truthy :: "string option \<Rightarrow> bool" where
  "str_truthy None = False"
| "str_truthy (Some s) = (s \<noteq> [])"

text \<open>\<^verbatim>\<open>a || b\<close> for an optional and a fallback string.\<close>

fun str_or :: "string option \<Rightarrow> string \<Rightarrow> string" where
  "str_or None b = b"
| "str_or (Some a) b = (if a \<noteq> [] then a else b)"

text \<open>\<^verbatim>\<open>result.success && result.token\<close>, the test of \<^verbatim>\<open>bypassCaptcha\<close> on a result.\<close>

definition has_token :: "CaptchaBypassResult \<Rightarrow> bool" where
  "has_token r = (success r \<and> str_truthy (token r))"

text \<open>
  What the outside world answers is a parameter. A \<^verbatim>\<open>fetch\<close> followed by
  \<^verbatim>\<open>response.json()\<close> either throws (\<open>Threw\<close> with the message of the error) or
  gives the fields that the solver reads. Every interaction is recorded as an effect, in
  order: a solver being called, a request being sent, the click on the checkbox.
\<close>

datatype 'a fetched = Threw string | Got 'a

datatype provider = NopeCHA | CapSolver | TwoCaptcha

datatype endpoint =
    NopeCHA_api
  | TwoCaptcha_in
  | TwoCaptcha_res
  | CapSolver_createTask
  | CapSolver_getTaskResult

datatype effect = Solver provider | Fetch endpoint | AutoClick

record nopecha_reply =
  ok :: bool
  statusText :: string
  data_error :: "string option"
  data_data :: "string option"

record twocaptcha_reply =
  status :: int
  request :: string

record capsolver_task =
  errorId :: int
  errorDescription :: "string option"
  taskId :: string

text \<open>
  \<open>solution\<close> is \<open>None\<close> when the reply has no \<^verbatim>\<open>solution\<close> object, and
  \<open>Some None\<close> when that object has no \<^verbatim>\<open>gRecaptchaResponse\<close>.
\<close>

record capsolver_reply =
  result_status :: string
  result_errorDescription :: "string option"
  solution :: "string option option"

datatype dom_outcome = NoIframe | ResponseField "string option" | DomThrew string

record world =
  nopecha_fetch :: "nopecha_reply fetched"
  twocaptcha_submit :: "twocaptcha_reply fetched"
  twocaptcha_poll :: "nat \<Rightarrow> twocaptcha_reply fetched"
  capsolver_create :: "capsolver_task fetched"
  capsolver_poll :: "nat \<Rightarrow> capsolver_reply fetched"
  document :: dom_outcome
  now_lookup :: int
  now_store :: int

text \<open>\<^verbatim>\<open>!apiKey || !apiKey.trim()\<close>\<close>

definition key_missing :: "string \<Rightarrow> bool" where
  "key_missing apiKey = (apiKey = [] \<or> trim apiKey = [])"

definition solveWithNopeCHA :: "world \<Rightarrow> string \<Rightarrow> CaptchaBypassResult \<times> effect list" where
  "solveWithNopeCHA w apiKey =
     (if key_missing apiKey then (failed ''NopeCHA API key not configured'', [])
      else case nopecha_fetch w of
        Threw msg \<Rightarrow> (failed (''NopeCHA: '' @ msg), [Fetch NopeCHA_api])
      | Got r \<Rightarrow>
          if \<not> ok r then
            (failed (''NopeCHA: '' @ str_or (data_error r) (statusText r)),
             [Fetch NopeCHA_api])
          else if str_truthy (data_data r) then (solved (data_data r), [Fetch NopeCHA_api])
          else (failed ''NopeCHA: No solution returned'', [Fetch NopeCHA_api]))"

text \<open>The polling loop \<^verbatim>\<open>for (let i = 0; i < 30; i++)\<close> of \<^verbatim>\<open>solveWith2Captcha\<close>.\<close>

function twocaptcha_loop :: "world \<Rightarrow> nat \<Rightarrow> CaptchaBypassResult \<times> effect list" where
  "twocaptcha_loop w i =
     (if i < 30 then
        (case twocaptcha_poll w i of
           Threw msg \<Rightarrow> (failed (''2Captcha: '' @ msg), [Fetch TwoCaptcha_res])
         | Got r \<Rightarrow>
             if status r = 1 then (solved (Some (request r)), [Fetch TwoCaptcha_res])
             else if request r \<noteq> ''CAPCHA_NOT_READY'' then
               (failed (''2Captcha: '' @ request r), [Fetch TwoCaptcha_res])
             else (case twocaptcha_loop w (i + 1) of
                     (res, effs) \<Rightarrow> (res, Fetch TwoCaptcha_res # effs)))
      else (failed ''2Captcha: Timeout waiting for solution'', []))"
  by pat_completeness auto
termination
  by (relation "measure (\<lambda>(w, i). 30 - i)") auto

declare twocaptcha_loop.simps [simp del]

definition solveWith2Captcha :: "world \<Rightarrow> string \<Rightarrow> CaptchaBypassResult \<times> effect list" where
  "solveWith2Captcha w apiKey =
     (if key_missing apiKey then (failed ''2Captcha API key not configured'', [])
      else case twocaptcha_submit w of
        Threw msg \<Rightarrow> (failed (''2Captcha: '' @ msg), [Fetch TwoCaptcha_in])
      | Got r \<Rightarrow>
          if status r \<noteq> 1 then
            (failed (''2Captcha submit failed: '' @ request r), [Fetch TwoCaptcha_in])
          else (case twocaptcha_loop w 0 of
                  (res, effs) \<Rightarrow> (res, Fetch TwoCaptcha_in # effs)))"

text \<open>
  The message of the \<^verbatim>\<open>TypeError\<close> thrown by
  \<^verbatim>\<open>resultData.solution.gRecaptchaResponse\<close> when the reply has no solution object.
\<close>

definition no_solution_message :: string where
  "no_solution_message = ''Cannot read properties of undefined (reading 'gRecaptchaResponse')''"

function capsolver_loop :: "world \<Rightarrow> nat \<Rightarrow> CaptchaBypassResult \<times> effect list" where
  "capsolver_loop w i =
     (if i < 30 then
        (case capsolver_poll w i of
           Threw msg \<Rightarrow> (failed (''CapSolver: '' @ msg), [Fetch CapSolver_getTaskResult])
         | Got r \<Rightarrow>
             if result_status r = ''ready'' then
               (case solution r of
                  None \<Rightarrow> (failed (''CapSolver: '' @ no_solution_message), [Fetch CapSolver_getTaskResult])
                | Some tok \<Rightarrow> (solved tok, [Fetch CapSolver_getTaskResult]))
             else if result_status r = ''failed'' then
               (failed (''CapSolver: '' @ str_or (result_errorDescription r) ''Task failed''),
                [Fetch CapSolver_getTaskResult])
             else (case capsolver_loop w (i + 1) of
                     (res, effs) \<Rightarrow> (res, Fetch CapSolver_getTaskResult # effs)))
      else (failed ''CapSolver: Timeout waiting for solution'', []))"
  by pat_completeness auto
termination
  by (relation "measure (\<lambda>(w, i). 30 - i)") auto

declare capsolver_loop.simps [simp del]

definition solveWithCapSolver :: "world \<Rightarrow> string \<Rightarrow> CaptchaBypassResult \<times> effect list" where
  "solveWithCapSolver w apiKey =
     (if key_missing apiKey then (failed ''CapSolver API key not configured'', [])
      else case capsolver_create w of
        Threw msg \<Rightarrow> (failed (''CapSolver: '' @ msg), [Fetch CapSolver_createTask])
      | Got r \<Rightarrow>
          if errorId r \<noteq> 0 then
            (failed (''CapSolver: '' @ str_or (errorDescription r) ''Task creation failed''),
             [Fetch CapSolver_createTask])
          else (case capsolver_loop w 0 of
                  (res, effs) \<Rightarrow> (res, Fetch CapSolver_createTask # effs)))"

text \<open>
  \<^verbatim>\<open>autoSolveHCaptchaCheckbox()\<close>: what the document shows is the parameter
  \<open>document w\<close>; the waiting is not modelled.
\<close>

definition autoSolveHCaptchaCheckbox :: "world \<Rightarrow> CaptchaBypassResult" where
  "autoSolveHCaptchaCheckbox w =
     (case document w of
        NoIframe \<Rightarrow> failed ''hCaptcha checkbox iframe not found''
      | ResponseField v \<Rightarrow>
          if str_truthy v then solved v
          else failed ''Captcha requires manual solving (no token received)''
      | DomThrew msg \<Rightarrow> failed msg)"

section \<open>Resolution\<close>

record api_keys =
  nopecha :: "string option"
  twoCaptcha :: "string option"
  capsolver :: "string option"

text \<open>\<^verbatim>\<open>apiKeys?.nopecha\<close> and its two siblings, for the optional argument \<open>apiKeys\<close>.\<close>

definition key_of :: "api_keys option \<Rightarrow> provider \<Rightarrow> string option" where
  "key_of apiKeys p =
     (case apiKeys of
        None \<Rightarrow> None
      | Some ks \<Rightarrow> (case p of NopeCHA \<Rightarrow> nopecha ks | CapSolver \<Rightarrow> capsolver ks | TwoCaptcha \<Rightarrow> twoCaptcha ks))"

text \<open>
  The list \<^verbatim>\<open>services\<close> that \<^verbatim>\<open>bypassCaptcha\<close> builds. A service is
  the name of its solver with the key that its closure passes on.
\<close>

type_synonym service = "provider \<times> string"

definition push_if_key :: "provider \<Rightarrow> string option \<Rightarrow> service list" where
  "push_if_key p key = (case key of None \<Rightarrow> [] | Some k \<Rightarrow> if k \<noteq> [] then [(p, k)] else [])"

definition build_services :: "string option \<Rightarrow> api_keys option \<Rightarrow> service list" where
  "build_services servicePreference apiKeys =
     (if servicePreference = Some ''auto'' \<or> \<not> str_truthy servicePreference then
        push_if_key NopeCHA (key_of apiKeys NopeCHA)
        @ push_if_key CapSolver (key_of apiKeys CapSolver)
        @ push_if_key TwoCaptcha (key_of apiKeys TwoCaptcha)
      else if servicePreference = Some ''nopecha'' \<and> str_truthy (key_of apiKeys NopeCHA)
        then push_if_key NopeCHA (key_of apiKeys NopeCHA)
      else if servicePreference = Some ''2captcha'' \<and> str_truthy (key_of apiKeys TwoCaptcha)
        then push_if_key TwoCaptcha (key_of apiKeys TwoCaptcha)
      else if servicePreference = Some ''capsolver'' \<and> str_truthy (key_of apiKeys CapSolver)
        then push_if_key CapSolver (key_of apiKeys CapSolver)
      else [])"

text \<open>\<^verbatim>\<open>service.solver()\<close>\<close>

fun run_solver :: "world \<Rightarrow> service \<Rightarrow> CaptchaBypassResult \<times> effect list" where
  "run_solver w (NopeCHA, apiKey) = solveWithNopeCHA w apiKey"
| "run_solver w (CapSolver, apiKey) = solveWithCapSolver w apiKey"
| "run_solver w (TwoCaptcha, apiKey) = solveWith2Captcha w apiKey"

text \<open>
  The loop \<^verbatim>\<open>for (const service of services)\<close>: the first result with a token ends
  it. The result is that result, if any, and the effects of all calls made.
\<close>

fun try_services :: "world \<Rightarrow> service list \<Rightarrow> CaptchaBypassResult option \<times> effect list" where
  "try_services w [] = (None, [])"
| "try_services w (s # ss) =
     (case run_solver w s of
        (res, effs) \<Rightarrow>
          if has_token res then (Some res, Solver (fst s) # effs)
          else (case try_services w ss of
                  (found, effs') \<Rightarrow> (found, Solver (fst s) # effs @ effs')))"

text \<open>
  \<^verbatim>\<open>bypassCaptcha(challenge, servicePreference, apiKeys)\<close> on a cache: the result, the
  cache afterwards and the effects. \<open>now_lookup w\<close> is the time of the cache lookup and
  \<open>now_store w\<close> the time at which a token is cached.
\<close>

definition bypassCaptcha :: "world \<Rightarrow> tokenCache \<Rightarrow> CaptchaChallenge \<Rightarrow> string option
    \<Rightarrow> api_keys option \<Rightarrow> CaptchaBypassResult \<times> tokenCache \<times> effect list" where
  "bypassCaptcha w cache challenge servicePreference apiKeys =
     (let looked = (if truthy (captcha_sitekey challenge)
                    then getCachedToken cache (captcha_sitekey challenge) (now_lookup w)
                    else (None, cache));
          cachedToken = fst looked;
          cache1 = snd looked
      in if truthy (captcha_sitekey challenge) \<and> str_truthy cachedToken then
           (solved cachedToken, cache1, [])
         else if \<not> truthy (captcha_sitekey challenge) then
           (failed ''No sitekey in challenge'', cache1, [])
         else
           (case try_services w (build_services servicePreference apiKeys) of
              (Some res, effs) \<Rightarrow>
                (res, cacheToken cache1 (captcha_sitekey challenge) (the (token res)) (now_store w), effs)
            | (None, effs) \<Rightarrow>
                if servicePreference \<noteq> Some ''fallback'' then
                  (let res = autoSolveHCaptchaCheckbox w
                   in if has_token res then
                        (res, cacheToken cache1 (captcha_sitekey challenge) (the (token res)) (now_store w),
                         effs @ [AutoClick])
                      else (failed ''All captcha solving methods failed'', cache1, effs @ [AutoClick]))
                else (failed ''All captcha solving methods failed'', cache1, effs)))"

text \<open>
  Every entry of a cache that the module has built holds a non-empty token under a truthy
  site-key: \<^verbatim>\<open>cacheToken\<close> is private to the module and called only on such values.
\<close>

definition cache_wf :: "tokenCache \<Rightarrow> bool" where
  "cache_wf cache = (\<forall>k entry. cache k = Some entry \<longrightarrow> truthy k \<and> TokenCacheEntry.token entry \<noteq> [])"

text \<open>
  The caches that the module can hold: it starts empty and is changed only by
  \<^verbatim>\<open>bypassCaptcha\<close>, by the periodic sweep and by \<^verbatim>\<open>clearTokenCache\<close>
  (\<^verbatim>\<open>getCachedToken\<close> and \<^verbatim>\<open>cacheToken\<close> are private and called from
  \<^verbatim>\<open>bypassCaptcha\<close> only).
\<close>

inductive reachable_cache :: "tokenCache \<Rightarrow> bool" where
  init: "reachable_cache Map.empty"
| bypass: "reachable_cache cache \<Longrightarrow>
     reachable_cache (fst (snd (bypassCaptcha w cache challenge servicePreference apiKeys)))"
| sweep: "reachable_cache cache \<Longrightarrow> reachable_cache (cleanupExpiredTokens cache now)"
| clear: "reachable_cache cache \<Longrightarrow> reachable_cache (clearTokenCache cache)"

text \<open>
  A world for the examples: NopeCHA cannot be reached, CapSolver answers
  \<^verbatim>\<open>ready\<close> at the second poll, 2Captcha would answer at once.
\<close>

definition world_B :: world where
  "world_B =
     \<lparr>nopecha_fetch = Threw ''Failed to fetch'',
      twocaptcha_submit = Got \<lparr>status = 1, request = ''77''\<rparr>,
      twocaptcha_poll = (\<lambda>i. Got \<lparr>status = 1, request = ''tok-C''\<rparr>),
      capsolver_create = Got \<lparr>errorId = 0, errorDescription = None, taskId = ''task-1''\<rparr>,
      capsolver_poll = (\<lambda>i. if i = 0
         then Got \<lparr>result_status = ''processing'', result_errorDescription = None, solution = None\<rparr>
         else Got \<lparr>result_status = ''ready'', result_errorDescription = None,
                   solution = Some (Some ''tok-B'')\<rparr>),
      document = NoIframe,
      now_lookup = 1000,
      now_store = 9000\<rparr>"

definition all_keys :: "api_keys option" where
  "all_keys = Some \<lparr>nopecha = Some ''key-n'', twoCaptcha = Some ''key-t'', capsolver = Some ''key-c''\<rparr>"

definition challenge_site1 :: CaptchaChallenge where
  "challenge_site1 = challenge_from (JObj [(''captcha_sitekey'', JStr ''site-1'')])"

section \<open>Task handlers\<close>

text \<open>
  A \<^verbatim>\<open>QUESTS_SEND_HEARTBEAT_SUCCESS\<close> event, with the fields that the two handlers
  read: \<^verbatim>\<open>event.questId\<close>, \<^verbatim>\<open>event.userStatus.streamProgressSeconds\<close> and
  \<^verbatim>\<open>event.userStatus.progress.STREAM_ON_DESKTOP.value\<close> (and the same for
  \<^verbatim>\<open>PLAY_ON_DESKTOP\<close>).
\<close>

record heartbeat =
  questId :: string
  streamProgressSeconds :: real
  progress_STREAM_ON_DESKTOP :: real
  progress_PLAY_ON_DESKTOP :: real

datatype task = PLAY_ON_DESKTOP | STREAM_ON_DESKTOP

record fake_entry =
  fake_id :: string
  fake_name :: string
  fake_pid :: nat

text \<open>
  The notifications that the handler of \<^verbatim>\<open>PLAY_ON_DESKTOP\<close> dispatches, both of type
  \<^verbatim>\<open>RUNNING_GAMES_CHANGE\<close>: the fake game of a quest was added (the flag tells
  whether \<^verbatim>\<open>removed\<close> lists the real games or nothing), or it was removed (the flag
  tells whether \<^verbatim>\<open>added\<close> lists the running games or nothing).
\<close>

datatype flux_event = FakeGameAdded string bool | FakeGameRemoved string bool

text \<open>
  The state that a handler works on: the three shared maps of the plugin, whether the
  callback of this handler is subscribed to the heartbeat event, the notifications
  dispatched, and how often \<^verbatim>\<open>onQuestComplete\<close> has been called.
\<close>

record quest_state =
  completingQuest :: "string \<rightharpoonup> bool"
  fakeGames :: "string \<rightharpoonup> fake_entry"
  fakeApplications :: "string \<rightharpoonup> fake_entry"
  subscribed :: bool
  dispatched :: "flux_event list"
  completions :: nat

text \<open>The fields of \<^verbatim>\<open>QuestHandlerContext\<close> that the two handlers use.\<close>

record handler_context =
  quest_id :: string
  secondsNeeded :: real
  configVersion :: int
  applicationId :: string
  applicationName :: string
  pid :: nat
  isApp :: bool

text \<open>
  \<^verbatim>\<open>onQuestComplete\<close> as \<^verbatim>\<open>completeQuest\<close> passes it:
  \<^verbatim>\<open>handleQuestCompletion(quest)\<close> marks the quest as stopped and starts the claim
  (which is modelled on its own below). The call is counted.
\<close>

definition onQuestComplete :: "handler_context \<Rightarrow> quest_state \<Rightarrow> quest_state" where
  "onQuestComplete ctx st =
     st\<lparr>completingQuest := (completingQuest st)(quest_id ctx \<mapsto> False),
        completions := completions st + 1\<rparr>"

text \<open>
  \<^verbatim>\<open>const progress = configVersion === 1 ? event.userStatus.streamProgressSeconds
  : Math.floor(event.userStatus.progress.<TASK>.value)\<close>
\<close>

definition task_value :: "task \<Rightarrow> heartbeat \<Rightarrow> real" where
  "task_value k event =
     (case k of PLAY_ON_DESKTOP \<Rightarrow> progress_PLAY_ON_DESKTOP event
              | STREAM_ON_DESKTOP \<Rightarrow> progress_STREAM_ON_DESKTOP event)"

definition progress_of :: "task \<Rightarrow> handler_context \<Rightarrow> heartbeat \<Rightarrow> real" where
  "progress_of k ctx event =
     (if configVersion ctx = 1 then streamProgressSeconds event
      else of_int \<lfloor>task_value k event\<rfloor>)"

text \<open>\<^verbatim>\<open>!completingQuest.get(quest.id)\<close>\<close>

definition not_completing :: "quest_state \<Rightarrow> string \<Rightarrow> bool" where
  "not_completing st q = (completingQuest st q \<noteq> Some True)"

text \<open>The callback \<^verbatim>\<open>streamOnDesktop\<close> of \<^verbatim>\<open>streamOnDesktopHandler\<close>.\<close>

definition streamOnDesktop :: "handler_context \<Rightarrow> quest_state \<Rightarrow> heartbeat \<Rightarrow> quest_state" where
  "streamOnDesktop ctx st event =
     (if questId event \<noteq> quest_id ctx then st
      else let progress = progress_of STREAM_ON_DESKTOP ctx event
        in if not_completing st (quest_id ctx) \<or> progress \<ge> secondsNeeded ctx then
             (let st1 = st\<lparr>fakeApplications := (fakeApplications st)(quest_id ctx := None),
                           subscribed := False\<rparr>
              in if progress \<ge> secondsNeeded ctx then onQuestComplete ctx st1
                 else st1\<lparr>completingQuest := (completingQuest st1)(quest_id ctx \<mapsto> False)\<rparr>)
           else st)"

text \<open>The callback \<^verbatim>\<open>playOnDesktop\<close> of \<^verbatim>\<open>playOnDesktopHandler\<close>.\<close>

definition playOnDesktop :: "handler_context \<Rightarrow> quest_state \<Rightarrow> heartbeat \<Rightarrow> quest_state" where
  "playOnDesktop ctx st event =
     (if questId event \<noteq> quest_id ctx then st
      else let progress = progress_of PLAY_ON_DESKTOP ctx event
        in if not_completing st (quest_id ctx) \<or> progress \<ge> secondsNeeded ctx then
             (let games = (fakeGames st)(quest_id ctx := None);
                  st1 = st\<lparr>fakeGames := games,
                           dispatched := dispatched st @ [FakeGameRemoved (quest_id ctx) (dom games = {})],
                           subscribed := False\<rparr>
              in if progress \<ge> secondsNeeded ctx then onQuestComplete ctx st1
                 else st1\<lparr>completingQuest := (completingQuest st1)(quest_id ctx \<mapsto> False)\<rparr>)
           else st)"

definition callback :: "task \<Rightarrow> handler_context \<Rightarrow> quest_state \<Rightarrow> heartbeat \<Rightarrow> quest_state" where
  "callback k = (case k of PLAY_ON_DESKTOP \<Rightarrow> playOnDesktop | STREAM_ON_DESKTOP \<Rightarrow> streamOnDesktop)"

text \<open>
  The event bus calls the callback with an event while the callback is subscribed, and
  not after \<^verbatim>\<open>FluxDispatcher.unsubscribe\<close>.
\<close>

definition deliver :: "task \<Rightarrow> handler_context \<Rightarrow> quest_state \<Rightarrow> heartbeat \<Rightarrow> quest_state" where
  "deliver k ctx st event = (if subscribed st then callback k ctx st event else st)"

definition deliver_all :: "task \<Rightarrow> handler_context \<Rightarrow> quest_state \<Rightarrow> heartbeat list \<Rightarrow> quest_state" where
  "deliver_all k ctx st events = foldl (deliver k ctx) st events"

text \<open>\<^verbatim>\<open>streamOnDesktopHandler.handle(context)\<close>\<close>

definition stream_handle :: "handler_context \<Rightarrow> quest_state \<Rightarrow> quest_state" where
  "stream_handle ctx st =
     st\<lparr>fakeApplications := (fakeApplications st)(quest_id ctx \<mapsto>
            \<lparr>fake_id = applicationId ctx,
             fake_name = ''FakeApp '' @ applicationName ctx @ '' (CompleteDiscordQuest)'',
             fake_pid = pid ctx\<rparr>),
        subscribed := True\<rparr>"

text \<open>
  \<^verbatim>\<open>playOnDesktopHandler.handle(context)\<close>. The argument \<open>app\<close> is the outcome of
  fetching the application data: the name of the application, or \<open>None\<close> when the call
  or the reading of its answer throws.
\<close>

definition play_handle :: "handler_context \<Rightarrow> string option \<Rightarrow> quest_state \<Rightarrow> quest_state" where
  "play_handle ctx app st =
     (if \<not> isApp ctx then st
      else case app of
        None \<Rightarrow> st\<lparr>completingQuest := (completingQuest st)(quest_id ctx \<mapsto> False)\<rparr>
      | Some name \<Rightarrow>
          st\<lparr>fakeGames := (fakeGames st)(quest_id ctx \<mapsto>
                 \<lparr>fake_id = applicationId ctx, fake_name = name, fake_pid = pid ctx\<rparr>),
             dispatched := dispatched st @ [FakeGameAdded (quest_id ctx) (dom (fakeGames st) = {})],
             subscribed := True\<rparr>)"

text \<open>
  \<^verbatim>\<open>stopCompletingAll()\<close> over the list \<^verbatim>\<open>completableQuests\<close> of quest ids: every
  tracked quest of the list is set to stop-requested.
\<close>

definition stopCompletingAll :: "string list \<Rightarrow> quest_state \<Rightarrow> quest_state" where
  "stopCompletingAll completableQuests st =
     st\<lparr>completingQuest :=
          fold (\<lambda>q m. if m q \<noteq> None then m(q \<mapsto> False) else m) completableQuests (completingQuest st)\<rparr>"

text \<open>An event is for the quest of the handler and its progress reaches the whole number \<open>T\<close>.\<close>

definition reaches :: "task \<Rightarrow> handler_context \<Rightarrow> int \<Rightarrow> heartbeat \<Rightarrow> bool" where
  "reaches k ctx T event =
     (questId event = quest_id ctx
      \<and> T \<le> \<lfloor>if configVersion ctx = 1 then streamProgressSeconds event else task_value k event\<rfloor>)"

text \<open>
  An event is for the quest of the handler and its progress is at least the target, where
  the progress is the flat value under the first version of the event format and the
  floor of the value of the task under the later versions.
\<close>

definition fires :: "task \<Rightarrow> handler_context \<Rightarrow> heartbeat \<Rightarrow> bool" where
  "fires k ctx event =
     (questId event = quest_id ctx
      \<and> secondsNeeded ctx \<le> (if configVersion ctx = 1 then streamProgressSeconds event
                               else of_int \<lfloor>task_value k event\<rfloor>))"

text \<open>Examples: a quest with target 120 under the second version of the event format.\<close>

definition ctx_120 :: handler_context where
  "ctx_120 = \<lparr>quest_id = ''q1'', secondsNeeded = 120, configVersion = 2,
              applicationId = ''app1'', applicationName = ''Game'', pid = 4242, isApp = True\<rparr>"

definition beat :: "string \<Rightarrow> real \<Rightarrow> heartbeat" where
  "beat q v = \<lparr>questId = q, streamProgressSeconds = 0, progress_STREAM_ON_DESKTOP = v,
               progress_PLAY_ON_DESKTOP = v\<rparr>"

text \<open>The same quest under the first version of the event format, and a heartbeat for it.\<close>

definition ctx_v1 :: handler_context where
  "ctx_v1 = ctx_120\<lparr>configVersion := 1\<rparr>"

text \<open>A target that is not a whole number, under the second version.\<close>

definition ctx_half :: handler_context where
  "ctx_half = ctx_120\<lparr>secondsNeeded := 241 / 2\<rparr>"

definition beat_v1 :: "string \<Rightarrow> real \<Rightarrow> heartbeat" where
  "beat_v1 q v = \<lparr>questId = q, streamProgressSeconds = v, progress_STREAM_ON_DESKTOP = 0,
                  progress_PLAY_ON_DESKTOP = 0\<rparr>"

definition state_0 :: quest_state where
  "state_0 = \<lparr>completingQuest = [''q1'' \<mapsto> True], fakeGames = Map.empty,
              fakeApplications = Map.empty, subscribed = False, dispatched = [], completions = 0\<rparr>"

section \<open>Redeem codes\<close>

text \<open>\<^verbatim>\<open>const codePattern = /^[A-Za-z0-9-]{8,}$/\<close>\<close>

definition code_char :: "char \<Rightarrow> bool" where
  "code_char c = (c \<in> set ''ABCDEFGHIJKLMNOPQRSTUVWXYZabcdefghijklmnopqrstuvwxyz0123456789-'')"

definition codePattern :: "string \<Rightarrow> bool" where
  "codePattern s = (length s \<ge> 8 \<and> list_all code_char s)"

definition keysToCheck :: "string list" where
  "keysToCheck = [''code'', ''redemptionCode'', ''gift_code'', ''giftCode'', ''redeemableCode'', ''claimCode'']"

text \<open>
  A \<^verbatim>\<open>Set\<close> of strings is the list of its elements in insertion order:
  \<^verbatim>\<open>set.add(x)\<close>, and \<^verbatim>\<open>Array.from(new Set(xs))\<close>.
\<close>

definition set_add :: "string \<Rightarrow> string list \<Rightarrow> string list" where
  "set_add x xs = (if x \<in> set xs then xs else xs @ [x])"

definition array_from_set :: "string list \<Rightarrow> string list" where
  "array_from_set xs = fold set_add xs []"

text \<open>The test that \<^verbatim>\<open>walk\<close> makes on a string, in both places.\<close>

definition test_string :: "string \<Rightarrow> string list \<Rightarrow> string list" where
  "test_string s codes = (if codePattern (trim s) then set_add (trim s) codes else codes)"

text \<open>\<^verbatim>\<open>typeof v === "object"\<close>: true of \<^verbatim>\<open>null\<close>, of arrays and of objects.\<close>

fun typeof_object :: "jsval \<Rightarrow> bool" where
  "typeof_object JNull = True"
| "typeof_object (JArr xs) = True"
| "typeof_object (JObj kvs) = True"
| "typeof_object v = False"

text \<open>
  The local function \<^verbatim>\<open>walk(value, depth)\<close> of \<^verbatim>\<open>gatherRedeemCodes\<close>, with the
  set \<^verbatim>\<open>codes\<close> that it fills passed through.
\<close>

function walk :: "jsval \<Rightarrow> nat \<Rightarrow> string list \<Rightarrow> string list" where
  "walk v depth codes =
     (if depth > 3 \<or> v = JNull \<or> v = JUndefined then codes
      else case v of
        JStr s \<Rightarrow> test_string s codes
      | JArr items \<Rightarrow> fold (\<lambda>item cs. walk item (depth + 1) cs) items codes
      | JObj props \<Rightarrow>
          fold (\<lambda>prop cs.
                  case snd prop of
                    JStr s \<Rightarrow> test_string s cs
                  | nested \<Rightarrow> if typeof_object nested then walk nested (depth + 1) cs else cs)
               props
               (fold (\<lambda>key cs. case map_of props key of
                                  Some x \<Rightarrow> walk x (depth + 1) cs
                                | None \<Rightarrow> cs)
                     keysToCheck codes)
      | _ \<Rightarrow> codes)"
  by pat_completeness auto
termination
  by (relation "measure (\<lambda>(v, depth, codes). 4 - depth)") auto

declare walk.simps [simp del]

definition gatherRedeemCodes :: "jsval \<Rightarrow> string list" where
  "gatherRedeemCodes body = walk body 0 []"

text \<open>\<^verbatim>\<open>s.split("\n")\<close> and \<^verbatim>\<open>xs.join("\n")\<close>\<close>

fun split_nl :: "string \<Rightarrow> string list" where
  "split_nl [] = [[]]"
| "split_nl (c # cs) =
     (if c = CHR 0x0A then [] # split_nl cs
      else (case split_nl cs of [] \<Rightarrow> [[c]] | l # ls \<Rightarrow> (c # l) # ls))"

fun join_nl :: "string list \<Rightarrow> string" where
  "join_nl [] = []"
| "join_nl [x] = x"
| "join_nl (x # y # ys) = x @ CHR 0x0A # join_nl (y # ys)"

text \<open>
  The entries already persisted:
  \<^verbatim>\<open>(settings.store.redeemCodes ?? "").split("\n").map(x => x.trim()).filter(Boolean)\<close>
\<close>

definition existing_entries :: "string option \<Rightarrow> string list" where
  "existing_entries stored =
     filter (\<lambda>x. x \<noteq> []) (map trim (split_nl (case stored of None \<Rightarrow> [] | Some s \<Rightarrow> s)))"

definition new_entry :: "string \<Rightarrow> string \<Rightarrow> string \<Rightarrow> string" where
  "new_entry name stamp code = code @ '' ('' @ name @ '' @ '' @ stamp @ '')''"

text \<open>The list \<^verbatim>\<open>merged\<close> of \<^verbatim>\<open>appendRedeemCodes\<close>.\<close>

definition merged_entries :: "string list \<Rightarrow> string \<Rightarrow> string \<Rightarrow> string option \<Rightarrow> string list" where
  "merged_entries codes name stamp stored =
     array_from_set (map (new_entry name stamp) codes @ existing_entries stored)"

text \<open>
  \<^verbatim>\<open>appendRedeemCodes(codes, questName)\<close> on the persisted setting
  \<^verbatim>\<open>settings.store.redeemCodes\<close>; \<open>stamp\<close> is \<^verbatim>\<open>new Date().toISOString()\<close>.
\<close>

definition appendRedeemCodes :: "string list \<Rightarrow> string \<Rightarrow> string \<Rightarrow> string option \<Rightarrow> string option" where
  "appendRedeemCodes codes name stamp stored =
     (if codes = [] then stored
      else Some (join_nl (merged_entries codes name stamp stored)))"

text \<open>The code text of an entry: what stands before the first space.\<close>

definition entry_code :: "string \<Rightarrow> string" where
  "entry_code entry = takeWhile (\<lambda>c. c \<noteq> CHR '' '') entry"

text \<open>
  The strings of a value within the depth that \<^verbatim>\<open>walk\<close> visits, starting at depth
  \<open>depth\<close>: the value itself when it is a string, the items of arrays and the values of
  the properties of objects down to depth 3, and the strings among the property values of
  an object at depth 3.
\<close>

function strings_within :: "jsval \<Rightarrow> nat \<Rightarrow> string list" where
  "strings_within v depth =
     (if depth > 3 then []
      else case v of
        JStr s \<Rightarrow> [s]
      | JArr items \<Rightarrow> concat (map (\<lambda>item. strings_within item (depth + 1)) items)
      | JObj props \<Rightarrow>
          concat (map (\<lambda>prop. case snd prop of
                                  JStr s \<Rightarrow> [s]
                                | nested \<Rightarrow> strings_within nested (depth + 1)) props)
      | _ \<Rightarrow> [])"
  by pat_completeness auto
termination
  by (relation "measure (\<lambda>(v, depth). 4 - depth)") auto

declare strings_within.simps [simp del]

text \<open>The codes among them: the trimmed strings that match the pattern.\<close>

definition codes_within :: "jsval \<Rightarrow> nat \<Rightarrow> string set" where
  "codes_within v depth = {c \<in> trim ` set (strings_within v depth). codePattern c}"

text \<open>The codes that one property of an object at depth \<open>depth\<close> contributes.\<close>

definition prop_codes :: "nat \<Rightarrow> string \<times> jsval \<Rightarrow> string set" where
  "prop_codes depth kv =
     (case snd kv of
        JStr s \<Rightarrow> {c \<in> {trim s}. codePattern c}
      | nested \<Rightarrow> codes_within nested (depth + 1))"

text \<open>All strings that occur in a value, at any depth.\<close>

fun strings_of :: "jsval \<Rightarrow> string list" where
  "strings_of (JStr s) = [s]"
| "strings_of (JArr items) = concat (map strings_of items)"
| "strings_of (JObj props) = concat (map (\<lambda>prop. strings_of (snd prop)) props)"
| "strings_of v = []"

section \<open>Claiming a reward\<close>

text \<open>The fields of a quest that \<^verbatim>\<open>claimQuestReward\<close> reads.\<close>

record QuestValue =
  quest_ident :: string
  claimedAt :: "string option"
  questName :: "string option"

text \<open>
  The state of the plugin that a claim works on: two settings, the persisted setting
  \<^verbatim>\<open>redeemCodes\<close>, the set \<^verbatim>\<open>claimingQuest\<close> and the token cache.
\<close>

record plugin_state =
  autoClaimRewards :: bool
  autoCaptchaSolving :: bool
  redeemCodes :: "string option"
  claimingQuest :: "string set"
  token_cache :: tokenCache

text \<open>
  A remote call goes through \<^verbatim>\<open>callWithRetry(fn, ...)\<close> and the REST layer, which
  are outside: the call is recorded with its request, and its outcome after all retries,
  a response or a thrown error, is a parameter.
\<close>

datatype request = POST string jsval | GET string

datatype call_result = Resolved jsval | Rejected jsval

datatype claim_effect = Call request | Bypass "effect list"

record claim_world =
  post_first :: call_result
  post_retry :: call_result
  post_world :: world
  get_first :: call_result
  get_retry :: call_result
  get_world :: world
  iso_now :: string
  QUEST_HOME_DESKTOP :: jsval

text \<open>
  \<^verbatim>\<open>patchRequestWithCaptchaBypass(requestBody)\<close>: a copy of the object without the
  three captcha keys. (The plugin passes an object.)
\<close>

fun patchRequestWithCaptchaBypass :: "jsval \<Rightarrow> jsval" where
  "patchRequestWithCaptchaBypass (JObj props) =
     JObj (filter (\<lambda>prop. fst prop \<notin> {''captcha_key'', ''captcha_rqtoken'', ''captcha_rqdata''}) props)"
| "patchRequestWithCaptchaBypass v = JObj []"

text \<open>\<^verbatim>\<open>a ?? b\<close> on values, and \<^verbatim>\<open>res?.body ?? res\<close>.\<close>

definition nullish_or :: "jsval \<Rightarrow> jsval \<Rightarrow> jsval" where
  "nullish_or a b = (if a = JUndefined \<or> a = JNull then b else a)"

definition body_or_self :: "jsval \<Rightarrow> jsval" where
  "body_or_self res = nullish_or (opt_field res ''body'') res"

definition claimPayload :: "plugin_state \<Rightarrow> claim_world \<Rightarrow> jsval" where
  "claimPayload st cw =
     (let payload = JObj [(''platform'', JNum 0),
                          (''location'', nullish_or (QUEST_HOME_DESKTOP cw) (JNum 11)),
                          (''is_targeted'', JBool False),
                          (''metadata_raw'', JNull)]
      in if autoCaptchaSolving st then patchRequestWithCaptchaBypass payload else payload)"

text \<open>
  The local function \<^verbatim>\<open>tryClaim(fn, label)\<close>: \<open>req\<close> is the request that
  \<^verbatim>\<open>fn\<close> sends, \<open>first\<close> and \<open>again\<close> are the outcomes of the call and of its
  repetition after a bypass, \<open>w\<close> is the world of that bypass. The result is whether the
  claim succeeded, the codes collected, the token cache and the effects.
\<close>

definition tryClaim :: "bool \<Rightarrow> tokenCache \<Rightarrow> request \<Rightarrow> call_result \<Rightarrow> call_result \<Rightarrow> world
    \<Rightarrow> string list \<Rightarrow> bool \<times> string list \<times> tokenCache \<times> claim_effect list" where
  "tryClaim solving c req first again w collected =
     (case first of
        Resolved res \<Rightarrow> (True, collected @ gatherRedeemCodes (body_or_self res), c, [Call req])
      | Rejected err \<Rightarrow>
          if \<not> solving then (False, collected, c, [Call req])
          else (case detectCaptchaChallenge err of
                  None \<Rightarrow> (False, collected, c, [Call req])
                | Some challenge \<Rightarrow>
                    (case bypassCaptcha w c challenge None None of
                       (bypassResult, c', effs) \<Rightarrow>
                         if has_token bypassResult then
                           (case again of
                              Resolved retryRes \<Rightarrow>
                                (True, collected @ gatherRedeemCodes (body_or_self retryRes), c',
                                 [Call req, Bypass effs, Call req])
                            | Rejected retryErr \<Rightarrow>
                                (False, collected, c', [Call req, Bypass effs, Call req]))
                         else (False, collected, c', [Call req, Bypass effs]))))"

text \<open>
  The response with which an attempt of \<^verbatim>\<open>tryClaim\<close> succeeds, if it succeeds: the
  response of the call, or, after a captcha error and a bypass that gave a token, the
  response of the repeated call. And the token cache after the attempt.
\<close>

definition attempt_response :: "bool \<Rightarrow> tokenCache \<Rightarrow> call_result \<Rightarrow> call_result \<Rightarrow> world
    \<Rightarrow> jsval option" where
  "attempt_response solving c first again w =
     (case first of
        Resolved res \<Rightarrow> Some res
      | Rejected err \<Rightarrow>
          (case detectCaptchaChallenge err of
             None \<Rightarrow> None
           | Some challenge \<Rightarrow>
               if solving \<and> has_token (fst (bypassCaptcha w c challenge None None))
               then (case again of Resolved retryRes \<Rightarrow> Some retryRes | Rejected retryErr \<Rightarrow> None)
               else None))"

definition attempt_cache :: "bool \<Rightarrow> tokenCache \<Rightarrow> call_result \<Rightarrow> world \<Rightarrow> tokenCache" where
  "attempt_cache solving c first w =
     (case first of
        Resolved res \<Rightarrow> c
      | Rejected err \<Rightarrow>
          (case detectCaptchaChallenge err of
             None \<Rightarrow> c
           | Some challenge \<Rightarrow>
               if solving then fst (snd (bypassCaptcha w c challenge None None)) else c))"

text \<open>
  The response with which a claim succeeds, if it succeeds: that of the attempt on
  \<^verbatim>\<open>/claim-reward\<close>, or else that of the attempt on \<^verbatim>\<open>/reward-code\<close>.
\<close>

definition claimed_response :: "claim_world \<Rightarrow> plugin_state \<Rightarrow> jsval option" where
  "claimed_response cw st =
     (case attempt_response (autoCaptchaSolving st) (token_cache st)
             (post_first cw) (post_retry cw) (post_world cw) of
        Some res \<Rightarrow> Some res
      | None \<Rightarrow>
          attempt_response (autoCaptchaSolving st)
            (attempt_cache (autoCaptchaSolving st) (token_cache st) (post_first cw) (post_world cw))
            (get_first cw) (get_retry cw) (get_world cw))"

text \<open>
  \<^verbatim>\<open>claimQuestReward(quest)\<close> in two parts. The first part runs when the function is
  called, up to its first \<^verbatim>\<open>await\<close>: it either returns at one of the three guards
  (\<open>None\<close>), or enters the quest into \<^verbatim>\<open>claimingQuest\<close>. The second part is the
  \<^verbatim>\<open>try\<close> block with its \<^verbatim>\<open>finally\<close>.
\<close>

definition claim_enter :: "plugin_state \<Rightarrow> QuestValue \<Rightarrow> plugin_state option" where
  "claim_enter st quest =
     (if \<not> autoClaimRewards st then None
      else if quest_ident quest \<in> claimingQuest st then None
      else if str_truthy (claimedAt quest) then None
      else Some (st\<lparr>claimingQuest := insert (quest_ident quest) (claimingQuest st)\<rparr>))"

text \<open>\<^verbatim>\<open>const questName = quest.config.messages.questName ?? quest.id\<close>\<close>

definition claim_name :: "QuestValue \<Rightarrow> string" where
  "claim_name quest = (case questName quest of None \<Rightarrow> quest_ident quest | Some n \<Rightarrow> n)"

definition claim_settle :: "claim_world \<Rightarrow> plugin_state \<Rightarrow> QuestValue
    \<Rightarrow> plugin_state \<times> claim_effect list" where
  "claim_settle cw st quest =
     (let posted = tryClaim (autoCaptchaSolving st) (token_cache st)
                     (POST (''/quests/'' @ quest_ident quest @ ''/claim-reward'') (claimPayload st cw))
                     (post_first cw) (post_retry cw) (post_world cw) [];
          got = (if fst posted then (True, fst (snd posted), fst (snd (snd posted)), [])
                 else tryClaim (autoCaptchaSolving st) (fst (snd (snd posted)))
                        (GET (''/quests/'' @ quest_ident quest @ ''/reward-code''))
                        (get_first cw) (get_retry cw) (get_world cw) (fst (snd posted)));
          claimed = fst got;
          collectedCodes = fst (snd got)
      in (st\<lparr>redeemCodes := (if claimed
                               then appendRedeemCodes collectedCodes (claim_name quest) (iso_now cw) (redeemCodes st)
                               else redeemCodes st),
             token_cache := fst (snd (snd got)),
             claimingQuest := claimingQuest st - {quest_ident quest}\<rparr>,
          snd (snd (snd posted)) @ snd (snd (snd got))))"

definition claimQuestReward :: "claim_world \<Rightarrow> plugin_state \<Rightarrow> QuestValue
    \<Rightarrow> plugin_state \<times> claim_effect list" where
  "claimQuestReward cw st quest =
     (case claim_enter st quest of
        None \<Rightarrow> (st, [])
      | Some st1 \<Rightarrow> claim_settle cw st1 quest)"

text \<open>
  Claims in flight. Calls of \<^verbatim>\<open>claimQuestReward\<close> interleave at their
  \<^verbatim>\<open>await\<close>s: a call runs its first part at once and, if it did not return there,
  is in flight until its second part has run.
\<close>

record claims =
  plugin :: plugin_state
  in_flight :: "QuestValue list"

datatype claim_action = Invoke QuestValue | Settle QuestValue claim_world

definition claim_step :: "claims \<Rightarrow> claim_action \<Rightarrow> claims" where
  "claim_step sys a =
     (case a of
        Invoke quest \<Rightarrow>
          (case claim_enter (plugin sys) quest of
             None \<Rightarrow> sys
           | Some st1 \<Rightarrow> sys\<lparr>plugin := st1, in_flight := in_flight sys @ [quest]\<rparr>)
      | Settle quest cw \<Rightarrow>
          if quest \<in> set (in_flight sys)
          then sys\<lparr>plugin := fst (claim_settle cw (plugin sys) quest),
                   in_flight := remove1 quest (in_flight sys)\<rparr>
          else sys)"

definition response_plain :: jsval where
  "response_plain = JObj [(''status'', JNum 200),
                          (''body'', JObj [(''claimed'', JBool True), (''message'', JStr ''claimed'')])]"

text \<open>
  No two claims in flight are for the same quest, and every quest with a claim in flight
  is in \<^verbatim>\<open>claimingQuest\<close>.
\<close>

definition claims_inv :: "claims \<Rightarrow> bool" where
  "claims_inv sys = (distinct (map quest_ident (in_flight sys))
     \<and> quest_ident ` set (in_flight sys) \<subseteq> claimingQuest (plugin sys))"

text \<open>The plugin when it starts: no claim has been made.\<close>

definition claims_init :: "plugin_state \<Rightarrow> claims" where
  "claims_init st = \<lparr>plugin = st\<lparr>claimingQuest := {}\<rparr>, in_flight = []\<rparr>"

text \<open>Examples.\<close>

definition quest_1 :: QuestValue where
  "quest_1 = \<lparr>quest_ident = ''q1'', claimedAt = None, questName = Some ''Quest''\<rparr>"

definition stored_ABCD :: "string option" where
  "stored_ABCD = Some ''ABCD1234 (Quest @ 2025-01-01T00:00:00.000Z)''"

definition quest_2 :: QuestValue where
  "quest_2 = \<lparr>quest_ident = ''q2'', claimedAt = None, questName = None\<rparr>"

definition plugin_0 :: plugin_state where
  "plugin_0 = \<lparr>autoClaimRewards = True, autoCaptchaSolving = False, redeemCodes = None,
               claimingQuest = {}, token_cache = Map.empty\<rparr>"

definition response_ABCD :: jsval where
  "response_ABCD = JObj [(''status'', JNum 200),
                         (''body'', JObj [(''reward'', JObj [(''code'', JStr ''ABCD1234'')])])]"

definition claim_world_ABCD :: "string \<Rightarrow> claim_world" where
  "claim_world_ABCD stamp =
     \<lparr>post_first = Resolved response_ABCD, post_retry = Rejected JUndefined, post_world = world_B,
      get_first = Rejected JUndefined, get_retry = Rejected JUndefined, get_world = world_B,
      iso_now = stamp, QUEST_HOME_DESKTOP = JNum 11\<rparr>"

text \<open>
  A claim whose first call fails without a captcha and whose call of
  \<^verbatim>\<open>/reward-code\<close> gives the code; and a claim whose first call fails with a
  captcha challenge, for whose site-key the cache holds a token, and whose repeated call
  gives the code.
\<close>

definition claim_world_fallback :: "string \<Rightarrow> claim_world" where
  "claim_world_fallback stamp =
     (claim_world_ABCD stamp)
       \<lparr>post_first := Rejected (JObj [(''status'', JNum 500), (''body'', JObj [(''message'', JStr ''error'')])]),
        get_first := Resolved response_ABCD\<rparr>"

definition claim_world_retry :: "string \<Rightarrow> claim_world" where
  "claim_world_retry stamp =
     (claim_world_ABCD stamp)
       \<lparr>post_first := Rejected (JObj [(''status'', JNum 400),
                                        (''body'', JObj [(''captcha_sitekey'', JStr ''site-1'')])]),
        post_retry := Resolved response_ABCD,
        post_world := world_B\<lparr>now_lookup := 10000\<rparr>\<rparr>"

definition plugin_solving :: plugin_state where
  "plugin_solving =
     plugin_0\<lparr>autoCaptchaSolving := True,
              token_cache := cacheToken Map.empty (JStr ''site-1'') ''tok-B'' 9000\<rparr>"

section \<open>Properties of the token cache\<close>

text \<open>
  C4. A token stored for a site-key at time \<open>s\<close> and looked up at time \<open>t\<close> is returned
  unchanged when \<open>t\<close> is strictly before the end of the lifetime of 2 minutes
  (\<open>t < s + 120000\<close>), and the lookup returns \<^verbatim>\<open>null\<close> and evicts the entry when
  \<open>t\<close> is after it (\<open>t > s + 120000\<close>). A sweep at any time \<open>u\<close> between the store and
  an in-time lookup does not change this. (At the instant \<open>t = s + 120000\<close> itself the
  token is still returned: the entry counts as expired when \<open>now > expiresAt\<close>.)
\<close>

theorem C4_lookup_after_store:
  "(t < s + 120000 \<longrightarrow>
      getCachedToken (cacheToken cache k tok s) k t = (Some tok, cacheToken cache k tok s))
   \<and> (t > s + 120000 \<longrightarrow>
      getCachedToken (cacheToken cache k tok s) k t = (None, (cacheToken cache k tok s)(k := None)))
   \<and> (u \<le> t \<and> t < s + 120000 \<longrightarrow>
      fst (getCachedToken (cleanupExpiredTokens (cacheToken cache k tok s) u) k t) = Some tok)
   \<and> fst (getCachedToken (cacheToken cache k tok s) k (s + 120000)) = Some tok"
  by (simp add: getCachedToken_def cacheToken_def cleanupExpiredTokens_def CACHE_LIFETIME_MS_def)

theorem C4_lookup_after_store_witness:
  "fst (getCachedToken (cacheToken Map.empty (JStr ''site-1'') ''tok-A'' 1000) (JStr ''site-1'') 120999)
     = Some ''tok-A''
   \<and> fst (getCachedToken (cacheToken Map.empty (JStr ''site-1'') ''tok-A'' 1000) (JStr ''site-1'') 121001)
     = None
   \<and> fst (getCachedToken (cleanupExpiredTokens (cacheToken Map.empty (JStr ''site-1'') ''tok-A'' 1000) 60000)
        (JStr ''site-1'') 120999) = Some ''tok-A''"
  using C4_lookup_after_store [of 120999 1000 Map.empty "JStr ''site-1''" "''tok-A''" 60000]
    C4_lookup_after_store [of 121001 1000 Map.empty "JStr ''site-1''" "''tok-A''" 60000]
  by simp

section \<open>Properties of challenge detection\<close>

lemma get_field_absent: "\<not> has_field v name \<Longrightarrow> get_field v name = JUndefined"
  by (cases v) (force split: option.splits dest: map_of_SomeD)+

lemma truthy_field_present: "truthy (get_field v name) \<Longrightarrow> has_field v name"
  using get_field_absent [of v name] by (cases "has_field v name") auto

lemma truthy_field_truthy: "truthy (get_field v name) \<Longrightarrow> truthy v"
  by (cases v) auto

lemma opt_field_truthy: "truthy (opt_field v name) = truthy (get_field v name)"
  by (cases v) (auto simp: opt_field_def)

text \<open>
  C5 as stated fails: an object whose challenge fields are present with the value
  \<^verbatim>\<open>null\<close> is answered with \<^verbatim>\<open>null\<close>, because the code tests the fields for
  truthiness.
\<close>

theorem C5_present_but_null_counterexample:
  "challenge_fields_present (JObj [(''captcha_key'', JNull), (''captcha_sitekey'', JNull)])
   \<and> detectCaptchaChallenge (JObj [(''captcha_key'', JNull), (''captcha_sitekey'', JNull)]) = None"
  by (simp add: challenge_fields_present_def detectCaptchaChallenge_def opt_field_def)

text \<open>
  C5, amended. Detection returns a descriptor exactly when the challenge key or the site
  identifier holds a truthy value at the top level of the value or one level down under
  its \<^verbatim>\<open>body\<close> field; the descriptor is built from the top level when a field is
  truthy there, and from the body otherwise. It returns \<^verbatim>\<open>null\<close> in every other
  case, in particular for every value that carries neither field at either level.
\<close>

theorem C5_detection:
  "(detectCaptchaChallenge response \<noteq> None \<longleftrightarrow> challenge_fields_set response)
   \<and> (\<not> challenge_fields_present response \<longrightarrow> detectCaptchaChallenge response = None)
   \<and> (truthy (get_field response ''captcha_key'') \<or> truthy (get_field response ''captcha_sitekey'')
        \<longrightarrow> detectCaptchaChallenge response = Some (challenge_from response))
   \<and> (challenge_fields_set response
        \<and> \<not> truthy (get_field response ''captcha_key'')
        \<and> \<not> truthy (get_field response ''captcha_sitekey'')
        \<longrightarrow> detectCaptchaChallenge response = Some (challenge_from (get_field response ''body'')))"
proof -
  have set_truthy: "challenge_fields_set response \<Longrightarrow> truthy response"
    unfolding challenge_fields_set_def
    using truthy_field_truthy [of response] truthy_field_truthy [of "get_field response ''body''"]
    by blast
  have set_present: "challenge_fields_set response \<Longrightarrow> challenge_fields_present response"
    unfolding challenge_fields_set_def challenge_fields_present_def
    using truthy_field_present by blast
  have iff: "detectCaptchaChallenge response \<noteq> None \<longleftrightarrow> challenge_fields_set response"
  proof (cases "truthy response")
    case True
    then show ?thesis
      by (simp add: detectCaptchaChallenge_def challenge_fields_set_def opt_field_truthy)
  next
    case False
    with set_truthy show ?thesis
      by (auto simp: detectCaptchaChallenge_def)
  qed
  have absent: "\<not> challenge_fields_present response \<longrightarrow> detectCaptchaChallenge response = None"
    using iff set_present by blast
  have top: "truthy (get_field response ''captcha_key'') \<or> truthy (get_field response ''captcha_sitekey'')
        \<longrightarrow> detectCaptchaChallenge response = Some (challenge_from response)"
    using truthy_field_truthy [of response]
    by (auto simp: detectCaptchaChallenge_def)
  have nested: "challenge_fields_set response
        \<and> \<not> truthy (get_field response ''captcha_key'')
        \<and> \<not> truthy (get_field response ''captcha_sitekey'')
        \<longrightarrow> detectCaptchaChallenge response = Some (challenge_from (get_field response ''body''))"
    using set_truthy
    by (auto simp: detectCaptchaChallenge_def challenge_fields_set_def opt_field_truthy)
  from iff absent top nested show ?thesis by blast
qed

theorem C5_detection_witness:
  "detectCaptchaChallenge (JObj [(''captcha_sitekey'', JStr ''site-1'')])
     = Some (challenge_from (JObj [(''captcha_sitekey'', JStr ''site-1'')]))
   \<and> detectCaptchaChallenge
       (JObj [(''status'', JNum 400), (''body'', JObj [(''captcha_key'', JArr [JStr ''captcha-required''])])])
     = Some (challenge_from (JObj [(''captcha_key'', JArr [JStr ''captcha-required''])]))
   \<and> detectCaptchaChallenge (JObj [(''code'', JNum 50035), (''message'', JStr ''Invalid Form Body'')]) = None"
proof -
  let ?top = "JObj [(''captcha_sitekey'', JStr ''site-1'')]"
  let ?nested = "JObj [(''status'', JNum 400), (''body'', JObj [(''captcha_key'', JArr [JStr ''captcha-required''])])]"
  let ?other = "JObj [(''code'', JNum 50035), (''message'', JStr ''Invalid Form Body'')]"
  have a: "truthy (get_field ?top ''captcha_key'') \<or> truthy (get_field ?top ''captcha_sitekey'')"
    by simp
  have b: "challenge_fields_set ?nested \<and> \<not> truthy (get_field ?nested ''captcha_key'')
             \<and> \<not> truthy (get_field ?nested ''captcha_sitekey'')"
    by (simp add: challenge_fields_set_def)
  have c: "\<not> challenge_fields_present ?other"
    by (simp add: challenge_fields_present_def)
  from a b c C5_detection [of ?top] C5_detection [of ?nested] C5_detection [of ?other]
  show ?thesis by simp
qed

section \<open>Properties of resolution\<close>

lemma getCachedToken_wf: "cache_wf cache \<Longrightarrow> cache_wf (snd (getCachedToken cache k now))"
  by (auto simp: cache_wf_def getCachedToken_def split: option.splits if_splits)

lemma cacheToken_wf: "cache_wf cache \<Longrightarrow> truthy k \<Longrightarrow> tok \<noteq> [] \<Longrightarrow> cache_wf (cacheToken cache k tok now)"
  by (auto simp: cache_wf_def cacheToken_def)

lemma cleanupExpiredTokens_wf: "cache_wf cache \<Longrightarrow> cache_wf (cleanupExpiredTokens cache now)"
  by (auto simp: cache_wf_def cleanupExpiredTokens_def split: option.splits if_splits)

lemma empty_wf: "cache_wf Map.empty"
  by (simp add: cache_wf_def)

lemma clearTokenCache_wf: "cache_wf (clearTokenCache cache)"
  by (simp add: cache_wf_def clearTokenCache_def)

lemma has_token_the: "has_token res \<Longrightarrow> the (token res) \<noteq> []"
  by (cases "token res") (auto simp: has_token_def)

lemma try_services_Some: "try_services w ss = (Some res, effs) \<Longrightarrow> has_token res"
  by (induction ss arbitrary: effs) (auto split: prod.splits if_splits)

lemma bypassCaptcha_wf:
  assumes "cache_wf cache"
  shows "cache_wf (fst (snd (bypassCaptcha w cache challenge servicePreference apiKeys)))"
proof -
  let ?k = "captcha_sitekey challenge"
  have c1: "cache_wf (snd (getCachedToken cache ?k (now_lookup w)))"
    using assms by (rule getCachedToken_wf)
  show ?thesis
  proof (cases "truthy ?k")
    case False
    with assms show ?thesis by (simp add: bypassCaptcha_def)
  next
    case True
    with c1 show ?thesis
      by (auto simp: bypassCaptcha_def Let_def cacheToken_wf has_token_the
               split: prod.splits option.splits dest: try_services_Some)
  qed
qed

text \<open>Every cache that the module can hold is well-formed.\<close>

lemma reachable_cache_wf: "reachable_cache cache \<Longrightarrow> cache_wf cache"
  by (induction rule: reachable_cache.induct)
     (simp_all add: empty_wf bypassCaptcha_wf cleanupExpiredTokens_wf clearTokenCache_wf)

lemma try_services_first_success:
  assumes "\<forall>q \<in> set pre. \<not> has_token (fst (run_solver w q))"
    and "has_token (fst (run_solver w s))"
  shows "try_services w (pre @ s # post)
       = (Some (fst (run_solver w s)),
          concat (map (\<lambda>q. Solver (fst q) # snd (run_solver w q)) (pre @ [s])))"
  using assms by (induction pre) (auto split: prod.splits)

lemma try_services_all_fail:
  assumes "\<forall>q \<in> set ss. \<not> has_token (fst (run_solver w q))"
  shows "try_services w ss
       = (None, concat (map (\<lambda>q. Solver (fst q) # snd (run_solver w q)) ss))"
  using assms by (induction ss) (auto split: prod.splits)

lemma build_services_auto:
  assumes "servicePreference = Some ''auto'' \<or> \<not> str_truthy servicePreference"
  shows "map fst (build_services servicePreference apiKeys)
       = filter (\<lambda>p. str_truthy (key_of apiKeys p)) [NopeCHA, CapSolver, TwoCaptcha]"
  using assms
  by (auto simp: build_services_def push_if_key_def split: option.splits if_splits)

lemma build_services_keys:
  "(p, k) \<in> set (build_services servicePreference apiKeys) \<Longrightarrow> key_of apiKeys p = Some k \<and> k \<noteq> []"
  by (auto simp: build_services_def push_if_key_def split: option.splits if_splits)

text \<open>The examples, evaluated.\<close>

lemma key_ok: "\<not> key_missing ''key-n''" "\<not> key_missing ''key-c''" "\<not> key_missing ''key-t''"
  by (simp_all add: key_missing_def trim_def is_ws_def)

lemma run_nopecha_B:
  "run_solver world_B (NopeCHA, ''key-n'') = (failed ''NopeCHA: Failed to fetch'', [Fetch NopeCHA_api])"
  by (simp add: solveWithNopeCHA_def world_B_def key_ok)

lemma run_capsolver_B:
  "run_solver world_B (CapSolver, ''key-c'')
   = (solved (Some ''tok-B''),
      [Fetch CapSolver_createTask, Fetch CapSolver_getTaskResult, Fetch CapSolver_getTaskResult])"
  by (simp add: solveWithCapSolver_def world_B_def key_ok capsolver_loop.simps [of _ 0]
       capsolver_loop.simps [of _ "Suc 0"] solved_def)

lemma build_services_all_keys:
  "build_services (Some ''auto'') all_keys
     = [(NopeCHA, ''key-n''), (CapSolver, ''key-c''), (TwoCaptcha, ''key-t'')]"
  by (simp add: build_services_def push_if_key_def key_of_def all_keys_def)

lemma sitekey_site1: "captcha_sitekey challenge_site1 = JStr ''site-1''"
  by (simp add: challenge_site1_def challenge_from_def)

lemma times_B: "now_lookup world_B = 1000" "now_store world_B = 9000"
  by (simp_all add: world_B_def)

lemma bypass_B:
  "bypassCaptcha world_B Map.empty challenge_site1 (Some ''auto'') all_keys
   = (solved (Some ''tok-B''),
      cacheToken Map.empty (JStr ''site-1'') ''tok-B'' 9000,
      [Solver NopeCHA, Fetch NopeCHA_api,
       Solver CapSolver, Fetch CapSolver_createTask, Fetch CapSolver_getTaskResult,
       Fetch CapSolver_getTaskResult])"
  by (simp add: bypassCaptcha_def build_services_all_keys run_nopecha_B run_capsolver_B
        sitekey_site1 times_B getCachedToken_def has_token_def failed_def solved_def
      del: run_solver.simps)

lemma reachable_B: "reachable_cache (cacheToken Map.empty (JStr ''site-1'') ''tok-B'' 9000)"
  using reachable_cache.bypass [OF reachable_cache.init, of world_B challenge_site1 "Some ''auto''" all_keys]
  by (simp add: bypass_B)

text \<open>
  C6. When the cache holds an unexpired entry for the site-key of the challenge,
  resolution returns the token of that entry as a success, calls no solver, sends no
  request, does not touch the document and leaves the cache as it is, whatever the
  preference and the configured keys are. The cache is any cache that the module can hold.
\<close>

theorem C6_cached_token:
  assumes "reachable_cache cache"
    and "cache (captcha_sitekey challenge) = Some entry"
    and "\<not> now_lookup w > expiresAt entry"
  shows "bypassCaptcha w cache challenge servicePreference apiKeys
       = (solved (Some (TokenCacheEntry.token entry)), cache, [])"
proof -
  from assms(1) have "cache_wf cache"
    by (rule reachable_cache_wf)
  with assms(2) have "truthy (captcha_sitekey challenge)" "TokenCacheEntry.token entry \<noteq> []"
    by (auto simp: cache_wf_def)
  with assms(2,3) show ?thesis
    by (simp add: bypassCaptcha_def getCachedToken_def)
qed

theorem C6_cached_token_witness:
  "bypassCaptcha (world_B\<lparr>now_lookup := 129000\<rparr>)
      (cacheToken Map.empty (JStr ''site-1'') ''tok-B'' 9000) challenge_site1 None None
   = (solved (Some ''tok-B''), cacheToken Map.empty (JStr ''site-1'') ''tok-B'' 9000, [])"
proof -
  let ?cache = "cacheToken Map.empty (JStr ''site-1'') ''tok-B'' 9000"
  let ?entry = "\<lparr>TokenCacheEntry.token = ''tok-B'', sitekey = JStr ''site-1'', timestamp = 9000,
                 expiresAt = 129000\<rparr>"
  have e: "?cache (captcha_sitekey challenge_site1) = Some ?entry"
    by (simp add: cacheToken_def sitekey_site1 CACHE_LIFETIME_MS_def)
  have t: "\<not> now_lookup (world_B\<lparr>now_lookup := 129000\<rparr>) > expiresAt ?entry"
    by simp
  from C6_cached_token [OF reachable_B e t, of None None] show ?thesis
    by simp
qed

lemma has_token_Some: "has_token res \<Longrightarrow> token res = Some (the (token res))"
  by (cases "token res") (auto simp: has_token_def)

text \<open>
  C7. Under the automatic preference (\<^verbatim>\<open>"auto"\<close>, or none), with a site-key and
  no cached token, the services tried are NopeCHA, CapSolver and 2Captcha, in this order,
  restricted to those whose key is configured. When a service of that list returns a
  token and every service before it has failed, resolution returns the result of that
  service; the cache afterwards maps the site-key of the challenge to an entry with that
  token, stored at the time of storing and expiring two minutes later, and is otherwise
  the cache after the lookup; a lookup of the site-key up to that expiry returns the
  token; and the effects are those of the services up to that one: no later service is
  called and the document is not touched.
\<close>

theorem C7_auto_order:
  assumes auto: "servicePreference = Some ''auto'' \<or> \<not> str_truthy servicePreference"
    and sk: "truthy (captcha_sitekey challenge)"
    and nocache: "\<not> str_truthy (fst (getCachedToken cache (captcha_sitekey challenge) (now_lookup w)))"
  shows "map fst (build_services servicePreference apiKeys)
           = filter (\<lambda>p. str_truthy (key_of apiKeys p)) [NopeCHA, CapSolver, TwoCaptcha]
    \<and> (\<forall>pre s post.
          build_services servicePreference apiKeys = pre @ s # post
          \<and> (\<forall>q \<in> set pre. \<not> has_token (fst (run_solver w q)))
          \<and> has_token (fst (run_solver w s))
          \<longrightarrow> bypassCaptcha w cache challenge servicePreference apiKeys
              = (fst (run_solver w s),
                 (snd (getCachedToken cache (captcha_sitekey challenge) (now_lookup w)))
                   (captcha_sitekey challenge \<mapsto>
                      \<lparr>TokenCacheEntry.token = the (token (fst (run_solver w s))),
                       sitekey = captcha_sitekey challenge,
                       timestamp = now_store w,
                       expiresAt = now_store w + 120000\<rparr>),
                 concat (map (\<lambda>q. Solver (fst q) # snd (run_solver w q)) (pre @ [s])))
            \<and> (\<forall>t \<le> now_store w + 120000.
                  fst (getCachedToken
                         (fst (snd (bypassCaptcha w cache challenge servicePreference apiKeys)))
                         (captcha_sitekey challenge) t)
                    = token (fst (run_solver w s))))"
proof (intro conjI allI impI)
  show "map fst (build_services servicePreference apiKeys)
           = filter (\<lambda>p. str_truthy (key_of apiKeys p)) [NopeCHA, CapSolver, TwoCaptcha]"
    using auto by (rule build_services_auto)
next
  fix pre s post
  assume h: "build_services servicePreference apiKeys = pre @ s # post
          \<and> (\<forall>q \<in> set pre. \<not> has_token (fst (run_solver w q)))
          \<and> has_token (fst (run_solver w s))"
  then have "try_services w (build_services servicePreference apiKeys)
       = (Some (fst (run_solver w s)),
          concat (map (\<lambda>q. Solver (fst q) # snd (run_solver w q)) (pre @ [s])))"
    using try_services_first_success [of pre w s post] by simp
  with sk nocache
  show res: "bypassCaptcha w cache challenge servicePreference apiKeys
              = (fst (run_solver w s),
                 (snd (getCachedToken cache (captcha_sitekey challenge) (now_lookup w)))
                   (captcha_sitekey challenge \<mapsto>
                      \<lparr>TokenCacheEntry.token = the (token (fst (run_solver w s))),
                       sitekey = captcha_sitekey challenge,
                       timestamp = now_store w,
                       expiresAt = now_store w + 120000\<rparr>),
                 concat (map (\<lambda>q. Solver (fst q) # snd (run_solver w q)) (pre @ [s])))"
    by (simp add: bypassCaptcha_def Let_def cacheToken_def CACHE_LIFETIME_MS_def)
  fix t :: int
  assume "t \<le> now_store w + 120000"
  moreover from h have "token (fst (run_solver w s)) = Some (the (token (fst (run_solver w s))))"
    using has_token_Some by blast
  ultimately show "fst (getCachedToken
                         (fst (snd (bypassCaptcha w cache challenge servicePreference apiKeys)))
                         (captcha_sitekey challenge) t)
                    = token (fst (run_solver w s))"
    by (simp add: res getCachedToken_def)
qed

theorem C7_auto_order_witness:
  "bypassCaptcha world_B Map.empty challenge_site1 (Some ''auto'') all_keys
   = (solved (Some ''tok-B''),
      [JStr ''site-1'' \<mapsto> \<lparr>TokenCacheEntry.token = ''tok-B'', sitekey = JStr ''site-1'',
                              timestamp = 9000, expiresAt = 129000\<rparr>],
      [Solver NopeCHA, Fetch NopeCHA_api,
       Solver CapSolver, Fetch CapSolver_createTask, Fetch CapSolver_getTaskResult,
       Fetch CapSolver_getTaskResult])
   \<and> fst (getCachedToken
            (fst (snd (bypassCaptcha world_B Map.empty challenge_site1 (Some ''auto'') all_keys)))
            (JStr ''site-1'') 129000) = Some ''tok-B''"
proof -
  have auto: "Some ''auto'' = Some ''auto'' \<or> \<not> str_truthy (Some ''auto'')"
    by simp
  have tr: "truthy (captcha_sitekey challenge_site1)"
    by (simp add: sitekey_site1)
  have nocache: "\<not> str_truthy (fst (getCachedToken Map.empty (captcha_sitekey challenge_site1)
                   (now_lookup world_B)))"
    by (simp add: getCachedToken_def)
  have split: "build_services (Some ''auto'') all_keys
      = [(NopeCHA, ''key-n'')] @ (CapSolver, ''key-c'') # [(TwoCaptcha, ''key-t'')]
      \<and> (\<forall>q \<in> set [(NopeCHA, ''key-n'')]. \<not> has_token (fst (run_solver world_B q)))
      \<and> has_token (fst (run_solver world_B (CapSolver, ''key-c'')))"
    by (simp add: build_services_all_keys run_nopecha_B run_capsolver_B has_token_def failed_def
          solved_def del: run_solver.simps)
  let ?res = "fst (run_solver world_B (CapSolver, ''key-c''))"
  from C7_auto_order [OF auto tr nocache, of all_keys] split
  have both: "bypassCaptcha world_B Map.empty challenge_site1 (Some ''auto'') all_keys
      = (?res,
         (snd (getCachedToken Map.empty (captcha_sitekey challenge_site1) (now_lookup world_B)))
           (captcha_sitekey challenge_site1 \<mapsto>
              \<lparr>TokenCacheEntry.token = the (token ?res),
               sitekey = captcha_sitekey challenge_site1,
               timestamp = now_store world_B,
               expiresAt = now_store world_B + 120000\<rparr>),
         concat (map (\<lambda>q. Solver (fst q) # snd (run_solver world_B q))
            ([(NopeCHA, ''key-n'')] @ [(CapSolver, ''key-c'')])))
      \<and> (\<forall>t \<le> now_store world_B + 120000.
            fst (getCachedToken
                   (fst (snd (bypassCaptcha world_B Map.empty challenge_site1 (Some ''auto'') all_keys)))
                   (captcha_sitekey challenge_site1) t)
              = token ?res)"
    by blast
  from both have first: "bypassCaptcha world_B Map.empty challenge_site1 (Some ''auto'') all_keys
   = (solved (Some ''tok-B''),
      [JStr ''site-1'' \<mapsto> \<lparr>TokenCacheEntry.token = ''tok-B'', sitekey = JStr ''site-1'',
                              timestamp = 9000, expiresAt = 129000\<rparr>],
      [Solver NopeCHA, Fetch NopeCHA_api,
       Solver CapSolver, Fetch CapSolver_createTask, Fetch CapSolver_getTaskResult,
       Fetch CapSolver_getTaskResult])"
    by (simp add: run_nopecha_B run_capsolver_B sitekey_site1 times_B getCachedToken_def solved_def
        del: run_solver.simps)
  from both have later: "\<forall>t \<le> now_store world_B + 120000.
            fst (getCachedToken
                   (fst (snd (bypassCaptcha world_B Map.empty challenge_site1 (Some ''auto'') all_keys)))
                   (captcha_sitekey challenge_site1) t)
              = token ?res"
    by (rule conjunct2)
  have "(129000 :: int) \<le> now_store world_B + 120000"
    by (simp add: times_B)
  with later have "fst (getCachedToken
            (fst (snd (bypassCaptcha world_B Map.empty challenge_site1 (Some ''auto'') all_keys)))
            (captcha_sitekey challenge_site1) 129000) = token ?res"
    by blast
  then have "fst (getCachedToken
            (fst (snd (bypassCaptcha world_B Map.empty challenge_site1 (Some ''auto'') all_keys)))
            (JStr ''site-1'') 129000) = Some ''tok-B''"
    by (simp add: sitekey_site1 run_capsolver_B solved_def del: run_solver.simps)
  with first show ?thesis by blast
qed

text \<open>
  C9. A challenge without a site-key (the field is missing, or holds a falsy value such as
  the empty string) is answered with the failure \<^verbatim>\<open>No sitekey in challenge\<close>: no
  solver is called, no request is sent, the document is not touched and the cache is
  unchanged. No cache lookup takes place, so no cached token can be found for it.
\<close>

theorem C9_no_sitekey:
  "\<not> truthy (captcha_sitekey challenge) \<Longrightarrow>
     bypassCaptcha w cache challenge servicePreference apiKeys
       = (failed ''No sitekey in challenge'', cache, [])"
  by (simp add: bypassCaptcha_def)

theorem C9_no_sitekey_witness:
  "bypassCaptcha world_B (cacheToken Map.empty (JStr ''site-1'') ''tok-B'' 9000)
      (challenge_from (JObj [(''captcha_key'', JArr [JStr ''captcha-required''])]))
      (Some ''auto'') all_keys
   = (failed ''No sitekey in challenge'', cacheToken Map.empty (JStr ''site-1'') ''tok-B'' 9000, [])"
proof -
  have "\<not> truthy (captcha_sitekey (challenge_from (JObj [(''captcha_key'', JArr [JStr ''captcha-required''])])))"
    by (simp add: challenge_from_def)
  from C9_no_sitekey [OF this] show ?thesis .
qed

section \<open>Properties of the task handlers\<close>

lemma deliver_all_Nil: "deliver_all k ctx st [] = st"
  by (simp add: deliver_all_def)

lemma deliver_all_Cons: "deliver_all k ctx st (e # es) = deliver_all k ctx (deliver k ctx st e) es"
  by (simp add: deliver_all_def)

lemma deliver_all_append:
  "deliver_all k ctx st (es @ es') = deliver_all k ctx (deliver_all k ctx st es) es'"
  by (simp add: deliver_all_def)

lemma deliver_all_unsubscribed: "\<not> subscribed st \<Longrightarrow> deliver_all k ctx st events = st"
  by (induction events) (simp_all add: deliver_all_Nil deliver_all_Cons deliver_def)

lemma fires_progress:
  "fires k ctx event = (questId event = quest_id ctx \<and> progress_of k ctx event \<ge> secondsNeeded ctx)"
  by (simp add: fires_def progress_of_def)

lemma fires_reaches: "secondsNeeded ctx = of_int T \<Longrightarrow> fires k ctx event = reaches k ctx T event"
  by (auto simp: fires_def reaches_def le_floor_iff)

lemma callback_other_quest: "questId event \<noteq> quest_id ctx \<Longrightarrow> callback k ctx st event = st"
  by (cases k) (simp_all add: callback_def playOnDesktop_def streamOnDesktop_def)

lemma callback_below:
  "completingQuest st (quest_id ctx) = Some True \<Longrightarrow> \<not> progress_of k ctx event \<ge> secondsNeeded ctx
     \<Longrightarrow> callback k ctx st event = st"
  by (cases k) (simp_all add: callback_def playOnDesktop_def streamOnDesktop_def not_completing_def)

lemma callback_reached:
  "questId event = quest_id ctx \<Longrightarrow> progress_of k ctx event \<ge> secondsNeeded ctx
     \<Longrightarrow> \<not> subscribed (callback k ctx st event)
         \<and> completions (callback k ctx st event) = completions st + 1"
  by (cases k) (simp_all add: callback_def playOnDesktop_def streamOnDesktop_def onQuestComplete_def Let_def)

lemma callback_stopped:
  "questId event = quest_id ctx \<Longrightarrow> completingQuest st (quest_id ctx) \<noteq> Some True
     \<Longrightarrow> \<not> progress_of k ctx event \<ge> secondsNeeded ctx
     \<Longrightarrow> \<not> subscribed (callback k ctx st event)
         \<and> completions (callback k ctx st event) = completions st
         \<and> completingQuest (callback k ctx st event) (quest_id ctx) = Some False"
  by (cases k) (simp_all add: callback_def playOnDesktop_def streamOnDesktop_def not_completing_def Let_def)

lemma deliver_other_quest: "questId event \<noteq> quest_id ctx \<Longrightarrow> deliver k ctx st event = st"
  by (simp add: deliver_def callback_other_quest)

lemma deliver_all_other_quests:
  "\<forall>e \<in> set events. questId e \<noteq> quest_id ctx \<Longrightarrow> deliver_all k ctx st events = st"
  by (induction events) (simp_all add: deliver_all_Nil deliver_all_Cons deliver_other_quest)

lemma deliver_no_fire:
  assumes "completingQuest st (quest_id ctx) = Some True" "\<not> fires k ctx event"
  shows "deliver k ctx st event = st"
proof (cases "questId event = quest_id ctx")
  case True
  with assms(2) have "\<not> progress_of k ctx event \<ge> secondsNeeded ctx"
    by (simp add: fires_progress)
  with assms(1) show ?thesis
    by (simp add: deliver_def callback_below)
next
  case False
  then show ?thesis by (rule deliver_other_quest)
qed

lemma deliver_fire:
  assumes "subscribed st" "fires k ctx event"
  shows "\<not> subscribed (deliver k ctx st event) \<and> completions (deliver k ctx st event) = completions st + 1"
proof -
  from assms(2) have "questId event = quest_id ctx" "progress_of k ctx event \<ge> secondsNeeded ctx"
    by (simp_all add: fires_progress)
  with assms(1) show ?thesis
    using callback_reached [of event ctx k st] by (simp add: deliver_def)
qed

lemma deliver_all_no_fire:
  assumes "completingQuest st (quest_id ctx) = Some True"
    "\<forall>e \<in> set events. \<not> fires k ctx e"
  shows "deliver_all k ctx st events = st"
  using assms(2)
  by (induction events) (simp_all add: deliver_all_Nil deliver_all_Cons deliver_no_fire [OF assms(1)])

lemma deliver_all_first_fire:
  assumes "subscribed st" "completingQuest st (quest_id ctx) = Some True"
    "\<forall>e' \<in> set pre. \<not> fires k ctx e'" "fires k ctx e"
  shows "deliver_all k ctx st (pre @ e # post) = deliver k ctx st e"
proof -
  have "deliver_all k ctx st pre = st"
    using assms(2,3) by (rule deliver_all_no_fire)
  moreover have "\<not> subscribed (deliver k ctx st e)"
    using deliver_fire [OF assms(1,4)] by simp
  ultimately show ?thesis
    by (simp add: deliver_all_append deliver_all_Cons deliver_all_unsubscribed)
qed

lemma completions_fires:
  assumes sub: "subscribed st"
    and act: "completingQuest st (quest_id ctx) = Some True"
  shows "completions (deliver_all k ctx st events)
           = completions st + (if \<exists>e \<in> set events. fires k ctx e then 1 else 0)"
proof (cases "\<exists>e \<in> set events. fires k ctx e")
  case False
  then have "deliver_all k ctx st events = st"
    using deliver_all_no_fire [OF act] by blast
  with False show ?thesis by simp
next
  case True
  then obtain pre e post where
    sp: "events = pre @ e # post" "fires k ctx e" "\<forall>e' \<in> set pre. \<not> fires k ctx e'"
    using split_list_first_prop [of events "fires k ctx"] by blast
  then have "deliver_all k ctx st events = deliver k ctx st e"
    using deliver_all_first_fire [OF sub act] by blast
  with True deliver_fire [OF sub sp(2)] show ?thesis by simp
qed

text \<open>
  C2 as stated fails in its last clause: under the first version of the event format the
  value compared with the target is \<^verbatim>\<open>streamProgressSeconds\<close> as it comes. For the
  value 120.5 the handler compares 120.5, not 120.
\<close>

theorem C2_unfloored_counterexample:
  "progress_of PLAY_ON_DESKTOP ctx_v1 (beat_v1 ''q1'' (241 / 2)) = 241 / 2
   \<and> progress_of PLAY_ON_DESKTOP ctx_v1 (beat_v1 ''q1'' (241 / 2))
       \<noteq> of_int \<lfloor>streamProgressSeconds (beat_v1 ''q1'' (241 / 2))\<rfloor>"
  by (simp add: progress_of_def ctx_v1_def ctx_120_def beat_v1_def)

text \<open>
  C2, amended. A handler is subscribed for a quest that is being completed and receives a
  sequence of heartbeat events (no stop request). The progress of an event is the floor
  of the value of the task under the later versions of the event format, and the flat
  value as it comes under the first version. \<^verbatim>\<open>onQuestComplete\<close> is called once if
  some event for the quest carries a progress that is at least the target, and not at all
  otherwise. It is called on the first such event: the events before it leave the state
  as it is, and the events after it are not delivered any more. When the target is a
  whole number \<open>T\<close>, these are under every version the events for the quest whose
  floored value is at least \<open>T\<close>.
\<close>

theorem C2_completion_once:
  assumes sub: "subscribed st"
    and act: "completingQuest st (quest_id ctx) = Some True"
  shows "completions (deliver_all k ctx st events)
           = completions st + (if \<exists>e \<in> set events. fires k ctx e then 1 else 0)
    \<and> (\<forall>pre e post. events = pre @ e # post \<and> (\<forall>e' \<in> set pre. \<not> fires k ctx e') \<and> fires k ctx e
          \<longrightarrow> deliver_all k ctx st pre = st
            \<and> completions (deliver k ctx st e) = completions st + 1
            \<and> deliver_all k ctx st events = deliver k ctx st e)
    \<and> (secondsNeeded ctx = of_int T \<longrightarrow>
          completions (deliver_all k ctx st events)
            = completions st + (if \<exists>e \<in> set events. reaches k ctx T e then 1 else 0)
          \<and> (\<forall>pre e post. events = pre @ e # post \<and> (\<forall>e' \<in> set pre. \<not> reaches k ctx T e')
                \<and> reaches k ctx T e
                \<longrightarrow> deliver_all k ctx st pre = st
                  \<and> completions (deliver k ctx st e) = completions st + 1
                  \<and> deliver_all k ctx st events = deliver k ctx st e))"
proof -
  have count: "completions (deliver_all k ctx st events)
           = completions st + (if \<exists>e \<in> set events. fires k ctx e then 1 else 0)"
    using sub act by (rule completions_fires)
  have first: "\<forall>pre e post. events = pre @ e # post \<and> (\<forall>e' \<in> set pre. \<not> fires k ctx e') \<and> fires k ctx e
          \<longrightarrow> deliver_all k ctx st pre = st
            \<and> completions (deliver k ctx st e) = completions st + 1
            \<and> deliver_all k ctx st events = deliver k ctx st e"
  proof (intro allI impI)
    fix pre e post
    assume h: "events = pre @ e # post \<and> (\<forall>e' \<in> set pre. \<not> fires k ctx e') \<and> fires k ctx e"
    then have "deliver_all k ctx st pre = st"
      using deliver_all_no_fire [OF act] by blast
    moreover from h have "completions (deliver k ctx st e) = completions st + 1"
      using deliver_fire [OF sub] by blast
    moreover from h have "deliver_all k ctx st events = deliver k ctx st e"
      using deliver_all_first_fire [OF sub act] by blast
    ultimately show "deliver_all k ctx st pre = st
            \<and> completions (deliver k ctx st e) = completions st + 1
            \<and> deliver_all k ctx st events = deliver k ctx st e"
      by blast
  qed
  have whole: "secondsNeeded ctx = of_int T \<longrightarrow>
          completions (deliver_all k ctx st events)
            = completions st + (if \<exists>e \<in> set events. reaches k ctx T e then 1 else 0)
          \<and> (\<forall>pre e post. events = pre @ e # post \<and> (\<forall>e' \<in> set pre. \<not> reaches k ctx T e')
                \<and> reaches k ctx T e
                \<longrightarrow> deliver_all k ctx st pre = st
                  \<and> completions (deliver k ctx st e) = completions st + 1
                  \<and> deliver_all k ctx st events = deliver k ctx st e)"
  proof
    assume "secondsNeeded ctx = of_int T"
    then have eq: "fires k ctx = reaches k ctx T"
      by (intro ext) (rule fires_reaches)
    show "completions (deliver_all k ctx st events)
            = completions st + (if \<exists>e \<in> set events. reaches k ctx T e then 1 else 0)
          \<and> (\<forall>pre e post. events = pre @ e # post \<and> (\<forall>e' \<in> set pre. \<not> reaches k ctx T e')
                \<and> reaches k ctx T e
                \<longrightarrow> deliver_all k ctx st pre = st
                  \<and> completions (deliver k ctx st e) = completions st + 1
                  \<and> deliver_all k ctx st events = deliver k ctx st e)"
      using count first unfolding eq by blast
  qed
  from count first whole show ?thesis by blast
qed

lemma stop_fold:
  "fold (\<lambda>q m. if m q \<noteq> None then m(q \<mapsto> False) else m) qs m x
     = (if x \<in> set qs \<and> m x \<noteq> None then Some False else m x)"
  by (induction qs arbitrary: m) auto

lemma stopCompletingAll_flag:
  "completingQuest (stopCompletingAll qs st) x
     = (if x \<in> set qs \<and> completingQuest st x \<noteq> None then Some False else completingQuest st x)"
  by (simp add: stopCompletingAll_def stop_fold del: not_None_eq)

lemma stopCompletingAll_others:
  "subscribed (stopCompletingAll qs st) = subscribed st"
  "completions (stopCompletingAll qs st) = completions st"
  by (simp_all add: stopCompletingAll_def)

lemma deliver_stopped:
  assumes "subscribed st" "completingQuest st (quest_id ctx) \<noteq> Some True"
    "questId e = quest_id ctx"
  shows "\<not> subscribed (deliver k ctx st e)
    \<and> completions (deliver k ctx st e) = completions st + (if fires k ctx e then 1 else 0)"
proof (cases "progress_of k ctx e \<ge> secondsNeeded ctx")
  case True
  with assms callback_reached [of e ctx k st] show ?thesis
    by (simp add: deliver_def fires_progress)
next
  case False
  with assms callback_stopped [of e ctx st k] show ?thesis
    by (simp add: deliver_def fires_progress)
qed

lemma deliver_all_stopped_first:
  assumes "subscribed st" "completingQuest st (quest_id ctx) \<noteq> Some True"
    "\<forall>e' \<in> set pre. questId e' \<noteq> quest_id ctx" "questId e = quest_id ctx"
  shows "deliver_all k ctx st (pre @ e # post) = deliver k ctx st e"
proof -
  have "deliver_all k ctx st pre = st"
    using assms(3) by (rule deliver_all_other_quests)
  moreover have "\<not> subscribed (deliver k ctx st e)"
    using deliver_stopped [OF assms(1,2,4)] by simp
  ultimately show ?thesis
    by (simp add: deliver_all_append deliver_all_Cons deliver_all_unsubscribed)
qed

lemma find_first_split:
  assumes "\<forall>e' \<in> set pre. \<not> P e'" "P e"
  shows "find P (pre @ e # post) = Some e"
  using assms by (induction pre) simp_all

lemma find_none: "\<forall>e \<in> set events. \<not> P e \<Longrightarrow> find P events = None"
  by (induction events) simp_all

lemma deliver_all_stopped:
  assumes "subscribed st" "completingQuest st (quest_id ctx) \<noteq> Some True"
  shows "completions (deliver_all k ctx st events)
     = completions st + (case find (\<lambda>e. questId e = quest_id ctx) events of
          None \<Rightarrow> 0
        | Some e \<Rightarrow> if fires k ctx e then 1 else 0)"
proof (cases "\<exists>e \<in> set events. questId e = quest_id ctx")
  case False
  then have "deliver_all k ctx st events = st"
    using deliver_all_other_quests [of events ctx k st] by blast
  moreover from False have "find (\<lambda>e. questId e = quest_id ctx) events = None"
    using find_none [of events "\<lambda>e. questId e = quest_id ctx"] by blast
  ultimately show ?thesis by simp
next
  case True
  then obtain pre e post where
    sp: "events = pre @ e # post" "questId e = quest_id ctx" "\<forall>e' \<in> set pre. questId e' \<noteq> quest_id ctx"
    using split_list_first_prop [of events "\<lambda>e. questId e = quest_id ctx"] by blast
  then have "deliver_all k ctx st events = deliver k ctx st e"
    using deliver_all_stopped_first [OF assms] by blast
  moreover from sp have "find (\<lambda>e. questId e = quest_id ctx) events = Some e"
    using find_first_split [of pre "\<lambda>e. questId e = quest_id ctx" e post] by blast
  ultimately show ?thesis
    using deliver_stopped [OF assms sp(2), of k] by simp
qed

text \<open>
  C1, amended. After a stop request for a tracked quest whose handler is subscribed, the
  first event for the quest ends the handler: the handler is unsubscribed by it, the
  events before it (for other quests) leave the state as it is, and the events after it
  are not delivered any more. \<^verbatim>\<open>onQuestComplete\<close> is called on that event when its
  progress has reached the target, and is not called otherwise; no later event calls it,
  whatever progress it carries.
\<close>

theorem C1_stop_requested:
  assumes "subscribed st" "completingQuest st (quest_id ctx) \<noteq> None" "quest_id ctx \<in> set completable"
  shows "completingQuest (stopCompletingAll completable st) (quest_id ctx) = Some False
    \<and> completions (deliver_all k ctx (stopCompletingAll completable st) events)
      = completions st + (case find (\<lambda>e. questId e = quest_id ctx) events of
          None \<Rightarrow> 0
        | Some e \<Rightarrow> if fires k ctx e then 1 else 0)
    \<and> (\<forall>pre e post. events = pre @ e # post \<and> (\<forall>e' \<in> set pre. questId e' \<noteq> quest_id ctx)
          \<and> questId e = quest_id ctx
          \<longrightarrow> deliver_all k ctx (stopCompletingAll completable st) pre = stopCompletingAll completable st
            \<and> \<not> subscribed (deliver k ctx (stopCompletingAll completable st) e)
            \<and> completions (deliver k ctx (stopCompletingAll completable st) e)
                = completions st + (if fires k ctx e then 1 else 0)
            \<and> deliver_all k ctx (stopCompletingAll completable st) events
                = deliver k ctx (stopCompletingAll completable st) e)
    \<and> ((\<exists>e \<in> set events. questId e = quest_id ctx)
          \<longrightarrow> \<not> subscribed (deliver_all k ctx (stopCompletingAll completable st) events))"
proof -
  let ?st = "stopCompletingAll completable st"
  have f: "completingQuest ?st (quest_id ctx) = Some False"
    using assms(2,3) by (simp add: stopCompletingAll_flag)
  then have stopped: "completingQuest ?st (quest_id ctx) \<noteq> Some True"
    by simp
  have sub: "subscribed ?st"
    using assms(1) by (simp add: stopCompletingAll_others)
  have count: "completions (deliver_all k ctx ?st events)
      = completions st + (case find (\<lambda>e. questId e = quest_id ctx) events of
          None \<Rightarrow> 0
        | Some e \<Rightarrow> if fires k ctx e then 1 else 0)"
    using deliver_all_stopped [OF sub stopped, of k events] by (simp add: stopCompletingAll_others)
  have first: "\<forall>pre e post. events = pre @ e # post \<and> (\<forall>e' \<in> set pre. questId e' \<noteq> quest_id ctx)
          \<and> questId e = quest_id ctx
          \<longrightarrow> deliver_all k ctx ?st pre = ?st
            \<and> \<not> subscribed (deliver k ctx ?st e)
            \<and> completions (deliver k ctx ?st e) = completions st + (if fires k ctx e then 1 else 0)
            \<and> deliver_all k ctx ?st events = deliver k ctx ?st e"
  proof (intro allI impI)
    fix pre e post
    assume h: "events = pre @ e # post \<and> (\<forall>e' \<in> set pre. questId e' \<noteq> quest_id ctx)
          \<and> questId e = quest_id ctx"
    then have "deliver_all k ctx ?st pre = ?st"
      using deliver_all_other_quests [of pre ctx k ?st] by blast
    moreover from h have "\<not> subscribed (deliver k ctx ?st e)
        \<and> completions (deliver k ctx ?st e) = completions ?st + (if fires k ctx e then 1 else 0)"
      using deliver_stopped [OF sub stopped] by blast
    moreover from h have "deliver_all k ctx ?st events = deliver k ctx ?st e"
      using deliver_all_stopped_first [OF sub stopped] by blast
    ultimately show "deliver_all k ctx ?st pre = ?st
            \<and> \<not> subscribed (deliver k ctx ?st e)
            \<and> completions (deliver k ctx ?st e) = completions st + (if fires k ctx e then 1 else 0)
            \<and> deliver_all k ctx ?st events = deliver k ctx ?st e"
      by (simp add: stopCompletingAll_others)
  qed
  have unsub: "(\<exists>e \<in> set events. questId e = quest_id ctx) \<longrightarrow> \<not> subscribed (deliver_all k ctx ?st events)"
  proof
    assume "\<exists>e \<in> set events. questId e = quest_id ctx"
    then obtain pre e post where
      "events = pre @ e # post" "questId e = quest_id ctx" "\<forall>e' \<in> set pre. questId e' \<noteq> quest_id ctx"
      using split_list_first_prop [of events "\<lambda>e. questId e = quest_id ctx"] by blast
    with first show "\<not> subscribed (deliver_all k ctx ?st events)"
      by metis
  qed
  from f count first unsub show ?thesis by blast
qed

lemma started_120:
  "secondsNeeded ctx_120 = of_int 120"
  "quest_id ctx_120 = ''q1''"
  "subscribed (stream_handle ctx_120 state_0)"
  "completingQuest (stream_handle ctx_120 state_0) ''q1'' = Some True"
  "completions (stream_handle ctx_120 state_0) = 0"
  by (simp_all add: ctx_120_def stream_handle_def state_0_def)

lemma reaches_120:
  "reaches k ctx_120 120 (beat q v) = (q = ''q1'' \<and> 120 \<le> \<lfloor>v\<rfloor>)"
  by (cases k) (simp_all add: reaches_def ctx_120_def beat_def task_value_def)

lemma fires_120:
  "fires k ctx_120 (beat q v) = (q = ''q1'' \<and> 120 \<le> \<lfloor>v\<rfloor>)"
  using fires_reaches [OF started_120(1)] by (simp add: reaches_120)

lemma questId_beat: "questId (beat q v) = q"
  by (simp add: beat_def)

lemma started_v1:
  "secondsNeeded ctx_v1 = of_int 120"
  "subscribed (play_handle ctx_v1 (Some ''Game'') state_0)"
  "completingQuest (play_handle ctx_v1 (Some ''Game'') state_0) (quest_id ctx_v1) = Some True"
  "completions (play_handle ctx_v1 (Some ''Game'') state_0) = 0"
  by (simp_all add: ctx_v1_def ctx_120_def play_handle_def state_0_def)

lemma reaches_v1:
  "reaches k ctx_v1 120 (beat_v1 q v) = (q = ''q1'' \<and> 120 \<le> \<lfloor>v\<rfloor>)"
  by (simp add: reaches_def ctx_v1_def ctx_120_def beat_v1_def)

lemma started_half:
  "subscribed (stream_handle ctx_half state_0)"
  "completingQuest (stream_handle ctx_half state_0) (quest_id ctx_half) = Some True"
  "completions (stream_handle ctx_half state_0) = 0"
  by (simp_all add: ctx_half_def ctx_120_def stream_handle_def state_0_def)

lemma fires_half:
  "fires k ctx_half (beat q v) = (q = ''q1'' \<and> 241 / 2 \<le> real_of_int \<lfloor>v\<rfloor>)"
  by (cases k) (simp_all add: fires_def ctx_half_def ctx_120_def beat_def task_value_def)

theorem C2_completion_once_witness:
  "completions (deliver_all STREAM_ON_DESKTOP ctx_120 (stream_handle ctx_120 state_0)
      (map (beat ''q1'') [10, 40, 90, 125])) = 1
   \<and> completions (deliver_all STREAM_ON_DESKTOP ctx_120 (stream_handle ctx_120 state_0)
      (map (beat ''q1'') [10, 40, 90, 1199 / 10])) = 0
   \<and> deliver_all STREAM_ON_DESKTOP ctx_120 (stream_handle ctx_120 state_0)
      (map (beat ''q1'') [10, 40, 90]) = stream_handle ctx_120 state_0
   \<and> completions (deliver_all PLAY_ON_DESKTOP ctx_v1 (play_handle ctx_v1 (Some ''Game'') state_0)
      (map (beat_v1 ''q1'') [239 / 2, 241 / 2, 130])) = 1
   \<and> completions (deliver_all STREAM_ON_DESKTOP ctx_half (stream_handle ctx_half state_0)
      (map (beat ''q1'') [1207 / 10])) = 0
   \<and> completions (deliver_all STREAM_ON_DESKTOP ctx_half (stream_handle ctx_half state_0)
      (map (beat ''q1'') [1207 / 10, 121])) = 1"
proof -
  let ?st = "stream_handle ctx_120 state_0"
  have act: "completingQuest ?st (quest_id ctx_120) = Some True"
    by (simp add: started_120)
  note inst = C2_completion_once [OF started_120(3) act, of STREAM_ON_DESKTOP _ 120]
  have a: "completions (deliver_all STREAM_ON_DESKTOP ctx_120 ?st (map (beat ''q1'') [10, 40, 90, 125])) = 1"
    using inst [of "map (beat ''q1'') [10, 40, 90, 125]"] started_120(1)
    by (simp add: reaches_120 fires_120 started_120(5))
  have b: "completions (deliver_all STREAM_ON_DESKTOP ctx_120 ?st (map (beat ''q1'') [10, 40, 90, 1199 / 10])) = 0"
    using inst [of "map (beat ''q1'') [10, 40, 90, 1199 / 10]"] started_120(1)
    by (simp add: reaches_120 fires_120 started_120(5))
  have "map (beat ''q1'') [10, 40, 90, 125] = map (beat ''q1'') [10, 40, 90] @ beat ''q1'' 125 # []
      \<and> (\<forall>e' \<in> set (map (beat ''q1'') [10, 40, 90]). \<not> fires STREAM_ON_DESKTOP ctx_120 e')
      \<and> fires STREAM_ON_DESKTOP ctx_120 (beat ''q1'' 125)"
    by (simp add: fires_120)
  with inst [of "map (beat ''q1'') [10, 40, 90, 125]"]
  have c: "deliver_all STREAM_ON_DESKTOP ctx_120 ?st (map (beat ''q1'') [10, 40, 90]) = ?st"
    by blast
  have d: "completions (deliver_all PLAY_ON_DESKTOP ctx_v1 (play_handle ctx_v1 (Some ''Game'') state_0)
      (map (beat_v1 ''q1'') [239 / 2, 241 / 2, 130])) = 1"
    using C2_completion_once [OF started_v1(2) started_v1(3), of PLAY_ON_DESKTOP
        "map (beat_v1 ''q1'') [239 / 2, 241 / 2, 130]" 120] started_v1(1)
    by (simp add: reaches_v1 started_v1(4))
  note half = C2_completion_once [OF started_half(1) started_half(2), of STREAM_ON_DESKTOP _ 0]
  have e: "completions (deliver_all STREAM_ON_DESKTOP ctx_half (stream_handle ctx_half state_0)
      (map (beat ''q1'') [1207 / 10])) = 0"
    using half [of "map (beat ''q1'') [1207 / 10]"]
    by (simp add: fires_half started_half(3))
  have f: "completions (deliver_all STREAM_ON_DESKTOP ctx_half (stream_handle ctx_half state_0)
      (map (beat ''q1'') [1207 / 10, 121])) = 1"
    using half [of "map (beat ''q1'') [1207 / 10, 121]"]
    by (simp add: fires_half started_half(3))
  from a b c d e f show ?thesis by blast
qed

lemma stopped_120:
  "completingQuest (stopCompletingAll [''q1''] (stream_handle ctx_120 state_0)) ''q1'' = Some False"
  "completions (stopCompletingAll [''q1''] (stream_handle ctx_120 state_0)) = 0"
  "subscribed (stopCompletingAll [''q1''] (stream_handle ctx_120 state_0))"
  by (simp_all add: stopCompletingAll_flag stopCompletingAll_others started_120)

lemma progress_120:
  "progress_of k ctx_120 (beat q v) = of_int \<lfloor>v\<rfloor>"
  by (cases k; simp add: progress_of_def ctx_120_def beat_def task_value_def)

text \<open>
  C1 as stated fails: the quest with target 120 has been set to stop-requested, the next
  event carries the progress 125, and \<^verbatim>\<open>onQuestComplete\<close> is called.
\<close>

theorem C1_completion_after_stop_counterexample:
  "completingQuest (stopCompletingAll [''q1''] (stream_handle ctx_120 state_0)) ''q1'' = Some False
   \<and> completions (stopCompletingAll [''q1''] (stream_handle ctx_120 state_0)) = 0
   \<and> completions (deliver_all STREAM_ON_DESKTOP ctx_120
        (stopCompletingAll [''q1''] (stream_handle ctx_120 state_0)) [beat ''q1'' 125]) = 1"
proof -
  have "completions (deliver_all STREAM_ON_DESKTOP ctx_120
        (stopCompletingAll [''q1''] (stream_handle ctx_120 state_0)) [beat ''q1'' 125]) = 1"
    by (simp add: deliver_all_def deliver_def stopped_120 callback_def streamOnDesktop_def
          progress_120 questId_beat started_120(1,2) onQuestComplete_def Let_def)
  with stopped_120 show ?thesis by simp
qed

theorem C1_stop_requested_witness:
  "completingQuest (stopCompletingAll [''q1''] (stream_handle ctx_120 state_0)) ''q1'' = Some False
   \<and> completions (deliver_all STREAM_ON_DESKTOP ctx_120
        (stopCompletingAll [''q1''] (stream_handle ctx_120 state_0))
        [beat ''q2'' 500, beat ''q1'' 90, beat ''q1'' 125]) = 0
   \<and> \<not> subscribed (deliver_all STREAM_ON_DESKTOP ctx_120
        (stopCompletingAll [''q1''] (stream_handle ctx_120 state_0))
        [beat ''q2'' 500, beat ''q1'' 90, beat ''q1'' 125])
   \<and> \<not> subscribed (deliver STREAM_ON_DESKTOP ctx_120
        (stopCompletingAll [''q1''] (stream_handle ctx_120 state_0)) (beat ''q1'' 90))
   \<and> deliver_all STREAM_ON_DESKTOP ctx_120
        (stopCompletingAll [''q1''] (stream_handle ctx_120 state_0))
        [beat ''q2'' 500, beat ''q1'' 90, beat ''q1'' 125]
      = deliver STREAM_ON_DESKTOP ctx_120
        (stopCompletingAll [''q1''] (stream_handle ctx_120 state_0)) (beat ''q1'' 90)"
proof -
  let ?events = "[beat ''q2'' 500, beat ''q1'' 90, beat ''q1'' 125]"
  have pre: "subscribed (stream_handle ctx_120 state_0)"
    "completingQuest (stream_handle ctx_120 state_0) (quest_id ctx_120) \<noteq> None"
    "quest_id ctx_120 \<in> set [''q1'']"
    by (simp_all add: started_120)
  note inst = C1_stop_requested [OF pre, of STREAM_ON_DESKTOP ?events]
  have sp: "?events = [beat ''q2'' 500] @ beat ''q1'' 90 # [beat ''q1'' 125]
      \<and> (\<forall>e' \<in> set [beat ''q2'' 500]. questId e' \<noteq> quest_id ctx_120)
      \<and> questId (beat ''q1'' 90) = quest_id ctx_120"
    by (simp add: questId_beat started_120)
  have ex: "\<exists>e \<in> set ?events. questId e = quest_id ctx_120"
    by (simp add: questId_beat started_120)
  from inst have a: "completingQuest (stopCompletingAll [''q1''] (stream_handle ctx_120 state_0)) ''q1'' = Some False"
    "completions (deliver_all STREAM_ON_DESKTOP ctx_120
        (stopCompletingAll [''q1''] (stream_handle ctx_120 state_0)) ?events) = 0"
    by (simp_all add: started_120 questId_beat fires_120)
  from inst ex have b: "\<not> subscribed (deliver_all STREAM_ON_DESKTOP ctx_120
        (stopCompletingAll [''q1''] (stream_handle ctx_120 state_0)) ?events)"
    by blast
  from inst sp have c: "\<not> subscribed (deliver STREAM_ON_DESKTOP ctx_120
        (stopCompletingAll [''q1''] (stream_handle ctx_120 state_0)) (beat ''q1'' 90))
      \<and> deliver_all STREAM_ON_DESKTOP ctx_120
        (stopCompletingAll [''q1''] (stream_handle ctx_120 state_0)) ?events
      = deliver STREAM_ON_DESKTOP ctx_120
        (stopCompletingAll [''q1''] (stream_handle ctx_120 state_0)) (beat ''q1'' 90)"
    by blast
  from a b c show ?thesis by blast
qed

section \<open>Properties of claiming\<close>

lemma strings_of_item: "item \<in> set items \<Longrightarrow> s \<in> set (strings_of item) \<Longrightarrow> s \<in> set (strings_of (JArr items))"
  by auto

lemma strings_of_prop: "prop \<in> set props \<Longrightarrow> s \<in> set (strings_of (snd prop)) \<Longrightarrow> s \<in> set (strings_of (JObj props))"
  by auto

lemma fold_preserves:
  "(\<And>x a. x \<in> set xs \<Longrightarrow> P a \<Longrightarrow> P (f x a)) \<Longrightarrow> P a \<Longrightarrow> P (fold f xs a)"
  by (induction xs arbitrary: a) auto

lemma walk_invariant:
  assumes "\<And>s cs. s \<in> set (strings_of v) \<Longrightarrow> P cs \<Longrightarrow> P (test_string s cs)"
    and "P codes"
  shows "P (walk v depth codes)"
  using assms
proof (induction v depth codes rule: walk.induct)
  case (1 v depth codes)
  note eq = walk.simps [of v depth codes]
  show ?case
  proof (cases "depth > 3 \<or> v = JNull \<or> v = JUndefined")
    case True
    with "1.prems"(2) show ?thesis unfolding eq by simp
  next
    case False
    show ?thesis
    proof (cases v)
      case (JStr s)
      with False "1.prems" show ?thesis unfolding eq by simp
    next
      case (JArr items)
      have "P (fold (\<lambda>item cs. walk item (depth + 1) cs) items codes)"
      proof (rule fold_preserves)
        show "P codes" by (rule "1.prems"(2))
      next
        fix item cs assume "item \<in> set items" "P cs"
        then show "P (walk item (depth + 1) cs)"
          using "1.IH"(1) [OF False JArr] "1.prems"(1) JArr strings_of_item by blast
      qed
      with False JArr show ?thesis unfolding eq by simp
    next
      case (JObj props)
      have inner: "P (fold (\<lambda>key cs. case map_of props key of Some x \<Rightarrow> walk x (depth + 1) cs | None \<Rightarrow> cs)
                       keysToCheck codes)"
      proof (rule fold_preserves)
        show "P codes" by (rule "1.prems"(2))
      next
        fix key cs assume k: "key \<in> set keysToCheck" and p: "P cs"
        show "P (case map_of props key of Some x \<Rightarrow> walk x (depth + 1) cs | None \<Rightarrow> cs)"
        proof (cases "map_of props key")
          case None
          with p show ?thesis by simp
        next
          case (Some x)
          then have "(key, x) \<in> set props" by (rule map_of_SomeD)
          then have "\<And>s. s \<in> set (strings_of x) \<Longrightarrow> s \<in> set (strings_of v)"
            using JObj strings_of_prop [of "(key, x)" props] by simp
          with "1.IH"(2) [OF False JObj k Some] "1.prems"(1) p Some show ?thesis by simp
        qed
      qed
      have "P (fold (\<lambda>prop cs.
                  case snd prop of
                    JStr s \<Rightarrow> test_string s cs
                  | nested \<Rightarrow> if typeof_object nested then walk nested (depth + 1) cs else cs)
               props
               (fold (\<lambda>key cs. case map_of props key of Some x \<Rightarrow> walk x (depth + 1) cs | None \<Rightarrow> cs)
                     keysToCheck codes))"
      proof (rule fold_preserves)
        show "P (fold (\<lambda>key cs. case map_of props key of Some x \<Rightarrow> walk x (depth + 1) cs | None \<Rightarrow> cs)
                     keysToCheck codes)" by (rule inner)
      next
        fix kv cs assume mem: "kv \<in> set props" and p: "P cs"
        have sub: "\<And>s. s \<in> set (strings_of (snd kv)) \<Longrightarrow> s \<in> set (strings_of v)"
          using JObj strings_of_prop [OF mem] by simp
        show "P (case snd kv of
                    JStr s \<Rightarrow> test_string s cs
                  | nested \<Rightarrow> if typeof_object nested then walk nested (depth + 1) cs else cs)"
        proof (cases "snd kv")
          case (JStr s)
          with sub "1.prems"(1) p show ?thesis by simp
        next
          case JNull
          with p show ?thesis by (simp add: walk.simps [of JNull])
        next
          case (JArr xs)
          with "1.IH"(7) [OF False JObj mem JArr] sub "1.prems"(1) p show ?thesis by simp
        next
          case (JObj ys)
          with "1.IH"(8) [OF False \<open>v = JObj props\<close> mem JObj] sub "1.prems"(1) p show ?thesis by simp
        qed (use p in simp_all)
      qed
      with False JObj show ?thesis unfolding eq by simp
    qed (use False "1.prems"(2) in \<open>simp_all add: walk.simps [of _ depth codes]\<close>)
  qed
qed


lemma test_string_nomatch: "\<not> codePattern (trim s) \<Longrightarrow> test_string s cs = cs"
  by (simp add: test_string_def)

lemma test_string_distinct: "distinct cs \<Longrightarrow> distinct (test_string s cs)"
  by (simp add: test_string_def set_add_def)

lemma walk_nomatch:
  assumes "\<forall>s \<in> set (strings_of v). \<not> codePattern (trim s)"
  shows "walk v depth codes = codes"
  using assms by (intro walk_invariant [where P = "\<lambda>cs. cs = codes"]) (simp_all add: test_string_nomatch)

lemma walk_distinct: "distinct codes \<Longrightarrow> distinct (walk v depth codes)"
  by (rule walk_invariant [where P = distinct]) (simp_all add: test_string_distinct)

lemma walk_codes:
  assumes "\<forall>c \<in> set codes. codePattern c \<and> c \<in> trim ` set (strings_of v)"
  shows "\<forall>c \<in> set (walk v depth codes). codePattern c \<and> c \<in> trim ` set (strings_of v)"
  using assms
  by (intro walk_invariant [where P = "\<lambda>cs. \<forall>c \<in> set cs. codePattern c \<and> c \<in> trim ` set (strings_of v)"])
     (auto simp: test_string_def set_add_def)

lemma gather_nomatch:
  "\<forall>s \<in> set (strings_of body). \<not> codePattern (trim s) \<Longrightarrow> gatherRedeemCodes body = []"
  by (simp add: gatherRedeemCodes_def walk_nomatch)

lemma gather_distinct: "distinct (gatherRedeemCodes body)"
  by (simp add: gatherRedeemCodes_def walk_distinct)

lemma gather_codes:
  "c \<in> set (gatherRedeemCodes body) \<Longrightarrow> codePattern c \<and> c \<in> trim ` set (strings_of body)"
  using walk_codes [of "[]" body 0] by (simp add: gatherRedeemCodes_def)

lemma fold_set_add_set: "set (fold set_add xs acc) = set acc \<union> set xs"
  by (induction xs arbitrary: acc) (auto simp: set_add_def)

lemma fold_set_add_distinct: "distinct acc \<Longrightarrow> distinct (fold set_add xs acc)"
  by (induction xs arbitrary: acc) (auto simp: set_add_def)

lemma fold_set_add_prefix: "\<exists>ys. fold set_add xs acc = acc @ ys"
proof (induction xs arbitrary: acc)
  case Nil
  then show ?case by simp
next
  case (Cons x xs)
  from Cons [of "set_add x acc"] obtain ys where ys: "fold set_add xs (set_add x acc) = set_add x acc @ ys"
    by blast
  show ?case
  proof (cases "x \<in> set acc")
    case True
    then have "set_add x acc = acc" by (simp add: set_add_def)
    with ys show ?thesis by simp
  next
    case False
    then have "set_add x acc = acc @ [x]" by (simp add: set_add_def)
    with ys show ?thesis by simp
  qed
qed

lemma fold_set_add_fresh:
  "distinct xs \<Longrightarrow> set xs \<inter> set acc = {} \<Longrightarrow> fold set_add xs acc = acc @ xs"
  by (induction xs arbitrary: acc) (auto simp: set_add_def)

lemma array_from_set_append:
  assumes "distinct new"
  shows "\<exists>rest. array_from_set (new @ old) = new @ rest
           \<and> distinct (new @ rest) \<and> set rest = set old - set new"
proof -
  have "fold set_add new [] = new"
    using assms fold_set_add_fresh [of new "[]"] by simp
  then have eq: "array_from_set (new @ old) = fold set_add old new"
    by (simp add: array_from_set_def)
  obtain rest where r: "fold set_add old new = new @ rest"
    using fold_set_add_prefix by blast
  have d: "distinct (new @ rest)"
    using fold_set_add_distinct [OF assms, of old] r by simp
  have "set (new @ rest) = set new \<union> set old"
    using fold_set_add_set [of old new] r by simp
  with d have "set rest = set old - set new"
    by auto
  with eq r d show ?thesis by (intro exI [of _ rest]) simp
qed

lemma new_entry_inj: "inj (new_entry name stamp)"
  by (simp add: inj_def new_entry_def)

lemma merged_entries_shape:
  assumes "distinct codes"
  shows "\<exists>rest. merged_entries codes name stamp stored = map (new_entry name stamp) codes @ rest
           \<and> distinct (map (new_entry name stamp) codes @ rest)
           \<and> set rest = set (existing_entries stored) - set (map (new_entry name stamp) codes)"
proof -
  have "distinct (map (new_entry name stamp) codes)"
    using assms new_entry_inj [of name stamp] by (simp add: distinct_map inj_on_def inj_def)
  then show ?thesis
    unfolding merged_entries_def by (rule array_from_set_append)
qed

lemma claim_settle_codes:
  assumes "post_first cw = Resolved res"
  shows "redeemCodes (fst (claim_settle cw st quest))
       = appendRedeemCodes (gatherRedeemCodes (body_or_self res)) (claim_name quest) (iso_now cw)
           (redeemCodes st)"
  using assms by (simp add: claim_settle_def tryClaim_def Let_def)

lemma claim_enter_Some:
  "claim_enter st quest = Some st1 \<Longrightarrow> redeemCodes st1 = redeemCodes st"
  by (auto simp: claim_enter_def split: if_splits)

lemma claim_success_codes:
  assumes "claim_enter st quest = Some st1" "post_first cw = Resolved res"
  shows "redeemCodes (fst (claimQuestReward cw st quest))
       = appendRedeemCodes (gatherRedeemCodes (body_or_self res)) (claim_name quest) (iso_now cw)
           (redeemCodes st)"
  using assms claim_enter_Some [OF assms(1)]
  by (simp add: claimQuestReward_def claim_settle_codes)

lemma gather_ABCD:
  "gatherRedeemCodes (JObj [(''reward'', JObj [(''code'', JStr ''ABCD1234'')])]) = [''ABCD1234'']"
  by code_simp


lemma claim_enter_dup: "quest_ident quest \<in> claimingQuest st \<Longrightarrow> claim_enter st quest = None"
  by (simp add: claim_enter_def)

lemma claim_settle_claiming:
  "claimingQuest (fst (claim_settle cw st quest)) = claimingQuest st - {quest_ident quest}"
  by (simp add: claim_settle_def Let_def)

lemma claim_step_inv: "claims_inv sys \<Longrightarrow> claims_inv (claim_step sys a)"
proof (cases a)
  case (Invoke quest)
  assume inv: "claims_inv sys"
  show ?thesis
  proof (cases "claim_enter (plugin sys) quest")
    case None
    with Invoke inv show ?thesis by (simp add: claim_step_def)
  next
    case (Some st1)
    then have "quest_ident quest \<notin> claimingQuest (plugin sys)"
      and "claimingQuest st1 = insert (quest_ident quest) (claimingQuest (plugin sys))"
      by (auto simp: claim_enter_def split: if_splits)
    with Invoke Some inv show ?thesis
      by (auto simp: claim_step_def claims_inv_def)
  qed
next
  case (Settle quest cw)
  assume inv: "claims_inv sys"
  show ?thesis
  proof (cases "quest \<in> set (in_flight sys)")
    case False
    with Settle inv show ?thesis by (simp add: claim_step_def)
  next
    case True
    from inv have d: "distinct (map quest_ident (in_flight sys))"
      by (simp add: claims_inv_def)
    then have d': "distinct (map quest_ident (remove1 quest (in_flight sys)))"
      by (auto simp: distinct_map intro: inj_on_diff)
    have "quest_ident ` set (remove1 quest (in_flight sys))
        \<subseteq> claimingQuest (plugin sys) - {quest_ident quest}"
    proof
      fix x assume "x \<in> quest_ident ` set (remove1 quest (in_flight sys))"
      then obtain q where q: "q \<in> set (remove1 quest (in_flight sys))" "x = quest_ident q"
        by blast
      from d have dq: "distinct (in_flight sys)" "inj_on quest_ident (set (in_flight sys))"
        by (simp_all add: distinct_map)
      from q(1) dq(1) have "q \<in> set (in_flight sys)" "q \<noteq> quest"
        by (simp_all)
      with dq(2) True have "quest_ident q \<noteq> quest_ident quest"
        by (auto dest: inj_onD)
      moreover from inv \<open>q \<in> set (in_flight sys)\<close> have "quest_ident q \<in> claimingQuest (plugin sys)"
        by (auto simp: claims_inv_def)
      ultimately show "x \<in> claimingQuest (plugin sys) - {quest_ident quest}"
        using q(2) by simp
    qed
    with Settle True d' show ?thesis
      by (simp add: claim_step_def claims_inv_def claim_settle_claiming)
  qed
qed

lemma claims_run_inv: "claims_inv sys \<Longrightarrow> claims_inv (foldl claim_step sys actions)"
  by (induction actions arbitrary: sys) (simp_all add: claim_step_inv)

lemma claims_init_inv: "claims_inv (claims_init st)"
  by (simp add: claims_inv_def claims_init_def)

text \<open>
  C3. When the id of a quest is in \<^verbatim>\<open>claimingQuest\<close>, a call of
  \<^verbatim>\<open>claimQuestReward\<close> for it returns at once: the state is unchanged and no remote
  call is made. Whatever calls are made and in whatever order they settle, every quest
  with a claim in flight is in \<^verbatim>\<open>claimingQuest\<close>, a further call for it changes
  nothing, and no two claims in flight are for the same quest id.
\<close>

theorem C3_claim_dedup:
  "(quest_ident quest \<in> claimingQuest st \<longrightarrow> claimQuestReward cw st quest = (st, []))
   \<and> claims_inv (foldl claim_step (claims_init st0) actions)
   \<and> (\<forall>q \<in> set (in_flight (foldl claim_step (claims_init st0) actions)).
        \<forall>again :: QuestValue. quest_ident again = quest_ident q \<longrightarrow>
          claim_step (foldl claim_step (claims_init st0) actions) (Invoke again)
            = foldl claim_step (claims_init st0) actions)"
proof (intro conjI ballI allI impI)
  assume "quest_ident quest \<in> claimingQuest st"
  then show "claimQuestReward cw st quest = (st, [])"
    by (simp add: claimQuestReward_def claim_enter_dup)
next
  show inv: "claims_inv (foldl claim_step (claims_init st0) actions)"
    by (rule claims_run_inv [OF claims_init_inv])
  fix q and again :: QuestValue
  assume "q \<in> set (in_flight (foldl claim_step (claims_init st0) actions))"
    and "quest_ident again = quest_ident q"
  with inv have "quest_ident again \<in> claimingQuest (plugin (foldl claim_step (claims_init st0) actions))"
    by (auto simp: claims_inv_def)
  then show "claim_step (foldl claim_step (claims_init st0) actions) (Invoke again)
            = foldl claim_step (claims_init st0) actions"
    by (simp add: claim_step_def claim_enter_dup)
qed

lemma claims_example:
  "foldl claim_step (claims_init plugin_0) [Invoke quest_1, Invoke quest_1, Invoke quest_2]
     = \<lparr>plugin = plugin_0\<lparr>claimingQuest := {''q2'', ''q1''}\<rparr>, in_flight = [quest_1, quest_2]\<rparr>"
  by (simp add: claims_init_def claim_step_def claim_enter_def plugin_0_def quest_1_def quest_2_def)

theorem C3_claim_dedup_witness:
  "in_flight (foldl claim_step (claims_init plugin_0) [Invoke quest_1, Invoke quest_1, Invoke quest_2])
     = [quest_1, quest_2]
   \<and> claimQuestReward (claim_world_ABCD ''2025-02-02T00:00:00.000Z'')
        (plugin_0\<lparr>claimingQuest := {''q2'', ''q1''}\<rparr>) quest_1
     = (plugin_0\<lparr>claimingQuest := {''q2'', ''q1''}\<rparr>, [])
   \<and> claim_step (foldl claim_step (claims_init plugin_0) [Invoke quest_1, Invoke quest_1, Invoke quest_2])
        (Invoke quest_1)
     = foldl claim_step (claims_init plugin_0) [Invoke quest_1, Invoke quest_1, Invoke quest_2]"
proof -
  let ?acts = "[Invoke quest_1, Invoke quest_1, Invoke quest_2]"
  note inst = C3_claim_dedup [of quest_1 "plugin_0\<lparr>claimingQuest := {''q2'', ''q1''}\<rparr>"
      "claim_world_ABCD ''2025-02-02T00:00:00.000Z''" plugin_0 ?acts]
  have mem: "quest_ident quest_1 \<in> claimingQuest (plugin_0\<lparr>claimingQuest := {''q2'', ''q1''}\<rparr>)"
    by (simp add: quest_1_def)
  have fl: "quest_1 \<in> set (in_flight (foldl claim_step (claims_init plugin_0) ?acts))"
    by (simp only: claims_example) simp
  from inst mem fl show ?thesis
    by (simp only: claims_example) simp
qed


lemma fold_set_union:
  "(\<And>x a. x \<in> set xs \<Longrightarrow> set (f x a) = set a \<union> g x)
     \<Longrightarrow> set (fold f xs a) = set a \<union> (\<Union>x \<in> set xs. g x)"
  by (induction xs arbitrary: a) auto

lemma test_string_set:
  "set (test_string s cs) = set cs \<union> {c \<in> {trim s}. codePattern c}"
  by (auto simp: test_string_def set_add_def)

lemma sw_JStr: "strings_within (JStr s) depth = (if depth > 3 then [] else [s])"
  by (simp add: strings_within.simps [of "JStr s" depth])

lemma sw_JArr:
  "strings_within (JArr items) depth
     = (if depth > 3 then [] else concat (map (\<lambda>item. strings_within item (depth + 1)) items))"
  by (simp add: strings_within.simps [of "JArr items" depth])

lemma sw_JObj:
  "strings_within (JObj props) depth
     = (if depth > 3 then []
        else concat (map (\<lambda>kv. case snd kv of JStr s \<Rightarrow> [s]
                                | nested \<Rightarrow> strings_within nested (depth + 1)) props))"
  by (simp add: strings_within.simps [of "JObj props" depth])

lemma sw_other:
  "strings_within JUndefined depth = []" "strings_within JNull depth = []"
  "strings_within (JBool b) depth = []" "strings_within (JNum n) depth = []"
  by (simp_all add: strings_within.simps [of _ depth])

lemma codes_within_deep: "depth > 3 \<Longrightarrow> codes_within v depth = {}"
  by (simp add: codes_within_def strings_within.simps [of v depth])

lemma codes_within_JStr: "\<not> depth > 3 \<Longrightarrow> codes_within (JStr s) depth = {c \<in> {trim s}. codePattern c}"
  by (auto simp: codes_within_def sw_JStr)

lemma codes_within_JArr:
  "\<not> depth > 3 \<Longrightarrow> codes_within (JArr items) depth = (\<Union>item \<in> set items. codes_within item (depth + 1))"
  by (auto simp: codes_within_def sw_JArr)

lemma prop_codes_alt:
  "prop_codes depth kv
     = {c \<in> trim ` set (case snd kv of JStr s \<Rightarrow> [s] | nested \<Rightarrow> strings_within nested (depth + 1)).
          codePattern c}"
  by (cases "snd kv") (auto simp: prop_codes_def codes_within_def)

lemma codes_within_JObj:
  "\<not> depth > 3 \<Longrightarrow> codes_within (JObj props) depth = (\<Union>kv \<in> set props. prop_codes depth kv)"
  unfolding prop_codes_alt by (auto simp: codes_within_def sw_JObj)

lemma codes_within_other:
  "codes_within JUndefined depth = {}" "codes_within JNull depth = {}"
  "codes_within (JBool b) depth = {}" "codes_within (JNum n) depth = {}"
  by (simp_all add: codes_within_def sw_other)

lemma codes_within_sub_prop: "codes_within x (depth + 1) \<subseteq> prop_codes depth (key, x)"
  by (cases x) (auto simp: prop_codes_def codes_within_def sw_JStr)


lemma walk_set: "set (walk v depth codes) = set codes \<union> codes_within v depth"
proof (induction v depth codes rule: walk.induct)
  case (1 v depth codes)
  note eq = walk.simps [of v depth codes]
  show ?case
  proof (cases "depth > 3")
    case True
    then show ?thesis unfolding eq by (simp add: codes_within_deep)
  next
    case False
    show ?thesis
    proof (cases v)
      case JUndefined
      then show ?thesis unfolding eq by (simp add: codes_within_other)
    next
      case JNull
      then show ?thesis unfolding eq by (simp add: codes_within_other)
    next
      case (JBool b)
      with False show ?thesis unfolding eq by (simp add: codes_within_other)
    next
      case (JNum n)
      with False show ?thesis unfolding eq by (simp add: codes_within_other)
    next
      case (JStr s)
      with False show ?thesis unfolding eq by (simp add: codes_within_JStr test_string_set)
    next
      case (JArr items)
      with False have c: "\<not> (3 < depth \<or> v = JNull \<or> v = JUndefined)" by simp
      have "set (fold (\<lambda>item cs. walk item (depth + 1) cs) items codes)
          = set codes \<union> (\<Union>item \<in> set items. codes_within item (depth + 1))"
        by (rule fold_set_union) (rule "1.IH"(1) [OF c JArr])
      with False JArr show ?thesis unfolding eq by (simp add: codes_within_JArr)
    next
      case (JObj props)
      with False have c: "\<not> (3 < depth \<or> v = JNull \<or> v = JUndefined)" by simp
      let ?inner = "fold (\<lambda>key cs. case map_of props key of Some x \<Rightarrow> walk x (depth + 1) cs | None \<Rightarrow> cs)
                       keysToCheck codes"
      let ?gk = "\<lambda>key. case map_of props key of Some x \<Rightarrow> codes_within x (depth + 1) | None \<Rightarrow> {}"
      have inner: "set ?inner = set codes \<union> (\<Union>key \<in> set keysToCheck. ?gk key)"
      proof (rule fold_set_union)
        fix key a assume k: "key \<in> set keysToCheck"
        show "set (case map_of props key of Some x \<Rightarrow> walk x (depth + 1) a | None \<Rightarrow> a)
            = set a \<union> ?gk key"
        proof (cases "map_of props key")
          case None
          then show ?thesis by simp
        next
          case (Some x)
          with "1.IH"(2) [OF c JObj k Some] show ?thesis by simp
        qed
      qed
      have sub: "(\<Union>key \<in> set keysToCheck. ?gk key) \<subseteq> (\<Union>kv \<in> set props. prop_codes depth kv)"
      proof
        fix y assume "y \<in> (\<Union>key \<in> set keysToCheck. ?gk key)"
        then obtain key where "y \<in> ?gk key" by blast
        then obtain x where x: "map_of props key = Some x" "y \<in> codes_within x (depth + 1)"
          by (cases "map_of props key") auto
        from x(1) have "(key, x) \<in> set props" by (rule map_of_SomeD)
        moreover from x(2) have "y \<in> prop_codes depth (key, x)"
          using codes_within_sub_prop by blast
        ultimately show "y \<in> (\<Union>kv \<in> set props. prop_codes depth kv)" by blast
      qed
      have outer: "set (fold (\<lambda>prop cs.
                  case snd prop of
                    JStr s \<Rightarrow> test_string s cs
                  | nested \<Rightarrow> if typeof_object nested then walk nested (depth + 1) cs else cs)
               props ?inner)
          = set ?inner \<union> (\<Union>kv \<in> set props. prop_codes depth kv)"
      proof (rule fold_set_union)
        fix kv a assume mem: "kv \<in> set props"
        show "set (case snd kv of
                    JStr s \<Rightarrow> test_string s a
                  | nested \<Rightarrow> if typeof_object nested then walk nested (depth + 1) a else a)
            = set a \<union> prop_codes depth kv"
        proof (cases "snd kv")
          case (JStr s)
          then show ?thesis by (simp add: prop_codes_def test_string_set)
        next
          case JNull
          then show ?thesis
            by (simp add: prop_codes_def codes_within_other walk.simps [of JNull])
        next
          case (JArr xs)
          with "1.IH"(7) [OF c JObj mem JArr] show ?thesis by (simp add: prop_codes_def)
        next
          case (JObj ys)
          with "1.IH"(8) [OF c \<open>v = JObj props\<close> mem JObj] show ?thesis by (simp add: prop_codes_def)
        qed (simp_all add: prop_codes_def codes_within_other)
      qed
      from inner sub outer have "set (fold (\<lambda>prop cs.
                  case snd prop of
                    JStr s \<Rightarrow> test_string s cs
                  | nested \<Rightarrow> if typeof_object nested then walk nested (depth + 1) cs else cs)
               props ?inner)
          = set codes \<union> (\<Union>kv \<in> set props. prop_codes depth kv)"
        by blast
      with False JObj show ?thesis unfolding eq by (simp add: codes_within_JObj)
    qed
  qed
qed

lemma gather_set: "set (gatherRedeemCodes body) = codes_within body 0"
  by (simp add: gatherRedeemCodes_def walk_set)

lemma gather_empty_iff:
  "gatherRedeemCodes body = [] \<longleftrightarrow> (\<forall>s \<in> set (strings_within body 0). \<not> codePattern (trim s))"
proof -
  have "gatherRedeemCodes body = [] \<longleftrightarrow> set (gatherRedeemCodes body) = {}"
    by simp
  also have "\<dots> \<longleftrightarrow> (\<forall>s \<in> set (strings_within body 0). \<not> codePattern (trim s))"
    by (auto simp: gather_set codes_within_def)
  finally show ?thesis .
qed


lemma fold_set_add_filter:
  "fold set_add xs acc = acc @ filter (\<lambda>x. x \<notin> set acc) (fold set_add xs [])"
proof (induction xs rule: rev_induct)
  case Nil
  then show ?case by simp
next
  case (snoc x xs)
  have s: "set (fold set_add xs []) = set xs"
    using fold_set_add_set [of xs "[]"] by simp
  from snoc show ?case
    by (auto simp: set_add_def s)
qed

lemma array_from_set_new_first:
  assumes "distinct new"
  shows "array_from_set (new @ old) = new @ filter (\<lambda>x. x \<notin> set new) (array_from_set old)"
proof -
  have "fold set_add new [] = new"
    using assms fold_set_add_fresh [of new "[]"] by simp
  then have "array_from_set (new @ old) = fold set_add old new"
    by (simp add: array_from_set_def)
  also have "\<dots> = new @ filter (\<lambda>x. x \<notin> set new) (fold set_add old [])"
    by (rule fold_set_add_filter)
  finally show ?thesis by (simp add: array_from_set_def)
qed

lemma array_from_set_distinct: "distinct (array_from_set xs)"
  using fold_set_add_distinct [of "[]" xs] by (simp add: array_from_set_def)

lemma array_from_set_id: "distinct xs \<Longrightarrow> array_from_set xs = xs"
  using fold_set_add_fresh [of xs "[]"] by (simp add: array_from_set_def)

lemma appendRedeemCodes_exact:
  assumes "codes \<noteq> []" "distinct codes"
  shows "appendRedeemCodes codes name stamp stored
       = Some (join_nl (map (new_entry name stamp) codes
                @ filter (\<lambda>x. x \<notin> set (map (new_entry name stamp) codes))
                    (array_from_set (existing_entries stored))))"
proof -
  have "distinct (map (new_entry name stamp) codes)"
    using assms(2) new_entry_inj [of name stamp] by (simp add: distinct_map inj_on_def inj_def)
  then show ?thesis
    using assms(1) by (simp add: appendRedeemCodes_def merged_entries_def array_from_set_new_first)
qed

lemma tryClaim_result:
  "fst (tryClaim solving c req first again w collected)
     = (attempt_response solving c first again w \<noteq> None)"
  "fst (snd (tryClaim solving c req first again w collected))
     = collected @ (case attempt_response solving c first again w of
                      None \<Rightarrow> []
                    | Some res \<Rightarrow> gatherRedeemCodes (body_or_self res))"
  "fst (snd (snd (tryClaim solving c req first again w collected))) = attempt_cache solving c first w"
proof -
  show "fst (tryClaim solving c req first again w collected)
     = (attempt_response solving c first again w \<noteq> None)"
  proof (cases first)
    case (Resolved res)
    then show ?thesis by (simp add: tryClaim_def attempt_response_def)
  next
    case (Rejected err)
    show ?thesis
    proof (cases "detectCaptchaChallenge err")
      case None
      with Rejected show ?thesis by (simp add: tryClaim_def attempt_response_def)
    next
      case (Some challenge)
      with Rejected show ?thesis
        by (cases "bypassCaptcha w c challenge None None"; cases again)
           (simp_all add: tryClaim_def attempt_response_def)
    qed
  qed
  show "fst (snd (tryClaim solving c req first again w collected))
     = collected @ (case attempt_response solving c first again w of
                      None \<Rightarrow> []
                    | Some res \<Rightarrow> gatherRedeemCodes (body_or_self res))"
  proof (cases first)
    case (Resolved res)
    then show ?thesis by (simp add: tryClaim_def attempt_response_def)
  next
    case (Rejected err)
    show ?thesis
    proof (cases "detectCaptchaChallenge err")
      case None
      with Rejected show ?thesis by (simp add: tryClaim_def attempt_response_def)
    next
      case (Some challenge)
      with Rejected show ?thesis
        by (cases "bypassCaptcha w c challenge None None"; cases again)
           (simp_all add: tryClaim_def attempt_response_def)
    qed
  qed
  show "fst (snd (snd (tryClaim solving c req first again w collected))) = attempt_cache solving c first w"
  proof (cases first)
    case (Resolved res)
    then show ?thesis by (simp add: tryClaim_def attempt_cache_def)
  next
    case (Rejected err)
    show ?thesis
    proof (cases "detectCaptchaChallenge err")
      case None
      with Rejected show ?thesis by (simp add: tryClaim_def attempt_cache_def)
    next
      case (Some challenge)
      with Rejected show ?thesis
        by (cases "bypassCaptcha w c challenge None None"; cases again)
           (simp_all add: tryClaim_def attempt_cache_def)
    qed
  qed
qed

lemma claim_settle_stored:
  "redeemCodes (fst (claim_settle cw st quest))
     = (case claimed_response cw st of
          None \<Rightarrow> redeemCodes st
        | Some res \<Rightarrow> appendRedeemCodes (gatherRedeemCodes (body_or_self res)) (claim_name quest)
                        (iso_now cw) (redeemCodes st))"
  by (simp add: claim_settle_def Let_def tryClaim_result claimed_response_def split: option.split)

lemma claim_enter_fields:
  assumes "claim_enter st quest = Some st1"
  shows "redeemCodes st1 = redeemCodes st" "claimed_response cw st1 = claimed_response cw st"
  using assms by (auto simp: claim_enter_def claimed_response_def split: if_splits option.splits)

lemma claim_stored:
  assumes "claim_enter st quest = Some st1"
  shows "redeemCodes (fst (claimQuestReward cw st quest))
     = (case claimed_response cw st of
          None \<Rightarrow> redeemCodes st
        | Some res \<Rightarrow> appendRedeemCodes (gatherRedeemCodes (body_or_self res)) (claim_name quest)
                        (iso_now cw) (redeemCodes st))"
  using assms claim_enter_fields [OF assms]
  by (simp add: claimQuestReward_def claim_settle_stored split: option.splits)

text \<open>
  What a claim writes. When the claim was entered, the persisted setting afterwards is
  determined by the response with which the claim succeeded: it is unchanged when there is
  none, or when no string of its body within the depth visited matches the code pattern;
  otherwise it is the list of the entries of the codes gathered, in the order gathered,
  followed by the entries persisted before that are not among them, in their order, each
  once.
\<close>

lemma redeem_codes_after_claim:
  assumes "claim_enter st quest = Some st1"
  shows "redeemCodes (fst (claimQuestReward cw st quest))
     = (case claimed_response cw st of
          None \<Rightarrow> redeemCodes st
        | Some res \<Rightarrow>
            if \<forall>s \<in> set (strings_within (body_or_self res) 0). \<not> codePattern (trim s)
            then redeemCodes st
            else Some (join_nl
                   (map (new_entry (claim_name quest) (iso_now cw)) (gatherRedeemCodes (body_or_self res))
                    @ filter (\<lambda>x. x \<notin> set (map (new_entry (claim_name quest) (iso_now cw))
                                               (gatherRedeemCodes (body_or_self res))))
                        (array_from_set (existing_entries (redeemCodes st))))))"
proof (cases "claimed_response cw st")
  case None
  with claim_stored [OF assms, of cw] show ?thesis by simp
next
  case (Some res)
  let ?codes = "gatherRedeemCodes (body_or_self res)"
  have stored: "redeemCodes (fst (claimQuestReward cw st quest))
      = appendRedeemCodes ?codes (claim_name quest) (iso_now cw) (redeemCodes st)"
    using Some claim_stored [OF assms, of cw] by simp
  show ?thesis
  proof (cases "?codes = []")
    case True
    then have cond: "\<forall>s \<in> set (strings_within (body_or_self res) 0). \<not> codePattern (trim s)"
      by (simp add: gather_empty_iff)
    from True stored have "redeemCodes (fst (claimQuestReward cw st quest)) = redeemCodes st"
      by (simp add: appendRedeemCodes_def)
    then show ?thesis
      unfolding Some by (simp only: option.case if_P [OF cond])
  next
    case False
    then have cond: "\<not> (\<forall>s \<in> set (strings_within (body_or_self res) 0). \<not> codePattern (trim s))"
      by (simp add: gather_empty_iff)
    have "redeemCodes (fst (claimQuestReward cw st quest))
        = Some (join_nl
                (map (new_entry (claim_name quest) (iso_now cw)) ?codes
                 @ filter (\<lambda>x. x \<notin> set (map (new_entry (claim_name quest) (iso_now cw)) ?codes))
                     (array_from_set (existing_entries (redeemCodes st)))))"
      unfolding stored by (rule appendRedeemCodes_exact [OF False gather_distinct])
    then show ?thesis
      unfolding Some by (simp only: option.case if_not_P [OF cond])
  qed
qed

lemma claim_enter_example:
  "claim_enter (plugin_0\<lparr>redeemCodes := stored\<rparr>) quest_1
     = Some (plugin_0\<lparr>redeemCodes := stored, claimingQuest := {''q1''}\<rparr>)"
  by (simp add: claim_enter_def plugin_0_def quest_1_def)

lemma claim_enter_0: "claim_enter plugin_0 quest_1 = Some (plugin_0\<lparr>claimingQuest := {''q1''}\<rparr>)"
  by (simp add: claim_enter_def plugin_0_def quest_1_def)

lemma claim_enter_solving:
  "claim_enter plugin_solving quest_1 = Some (plugin_solving\<lparr>claimingQuest := {''q1''}\<rparr>)"
  by (simp add: claim_enter_def plugin_solving_def plugin_0_def quest_1_def)

lemma body_ABCD:
  "body_or_self response_ABCD = JObj [(''reward'', JObj [(''code'', JStr ''ABCD1234'')])]"
  by (simp add: body_or_self_def response_ABCD_def opt_field_def nullish_or_def)

lemma claim_name_1: "claim_name quest_1 = ''Quest''"
  by (simp add: claim_name_def quest_1_def)

lemma append_ABCD_fresh:
  "appendRedeemCodes [''ABCD1234''] ''Quest'' ''2025-02-02T00:00:00.000Z'' None
     = Some ''ABCD1234 (Quest @ 2025-02-02T00:00:00.000Z)''"
  by code_simp

lemma append_ABCD:
  "appendRedeemCodes [''ABCD1234''] ''Quest'' ''2025-02-02T00:00:00.000Z'' stored_ABCD
     = Some (''ABCD1234 (Quest @ 2025-02-02T00:00:00.000Z)'' @ CHR 0x0A
             # ''ABCD1234 (Quest @ 2025-01-01T00:00:00.000Z)'')"
  by code_simp

lemma entry_codes_ABCD:
  "map entry_code (split_nl (''ABCD1234 (Quest @ 2025-02-02T00:00:00.000Z)'' @ CHR 0x0A
             # ''ABCD1234 (Quest @ 2025-01-01T00:00:00.000Z)'')) = [''ABCD1234'', ''ABCD1234'']"
  by code_simp

lemma claimed_ABCD:
  "claimed_response (claim_world_ABCD stamp) st = Some response_ABCD"
  "iso_now (claim_world_ABCD stamp) = stamp"
  by (simp_all add: claimed_response_def attempt_response_def claim_world_ABCD_def)

text \<open>Examples: the code arrives with the first call, with the fallback call, with the repeated call.\<close>

lemma claim_example_first:
  "redeemCodes (fst (claimQuestReward (claim_world_ABCD ''2025-02-02T00:00:00.000Z'') plugin_0 quest_1))
     = Some ''ABCD1234 (Quest @ 2025-02-02T00:00:00.000Z)''"
proof -
  have "redeemCodes plugin_0 = None"
    by (simp add: plugin_0_def)
  with claim_stored [OF claim_enter_0, of "claim_world_ABCD ''2025-02-02T00:00:00.000Z''"]
  show ?thesis
    by (simp add: claimed_ABCD body_ABCD gather_ABCD claim_name_1 append_ABCD_fresh)
qed

lemma claim_example_fallback:
  "redeemCodes (fst (claimQuestReward (claim_world_fallback ''2025-02-02T00:00:00.000Z'') plugin_0 quest_1))
     = Some ''ABCD1234 (Quest @ 2025-02-02T00:00:00.000Z)''"
proof -
  have "redeemCodes plugin_0 = None"
    by (simp add: plugin_0_def)
  moreover have "claimed_response (claim_world_fallback ''2025-02-02T00:00:00.000Z'') plugin_0
      = Some response_ABCD"
    by (simp add: claimed_response_def attempt_response_def claim_world_fallback_def
          claim_world_ABCD_def detectCaptchaChallenge_def opt_field_def)
  moreover have "iso_now (claim_world_fallback ''2025-02-02T00:00:00.000Z'') = ''2025-02-02T00:00:00.000Z''"
    by (simp add: claim_world_fallback_def claim_world_ABCD_def)
  ultimately show ?thesis
    using claim_stored [OF claim_enter_0, of "claim_world_fallback ''2025-02-02T00:00:00.000Z''"]
    by (simp add: body_ABCD gather_ABCD claim_name_1 append_ABCD_fresh)
qed

lemma claim_example_retry:
  "redeemCodes (fst (claimQuestReward (claim_world_retry ''2025-02-02T00:00:00.000Z'') plugin_solving quest_1))
     = Some ''ABCD1234 (Quest @ 2025-02-02T00:00:00.000Z)''"
proof -
  let ?err = "JObj [(''status'', JNum 400), (''body'', JObj [(''captcha_sitekey'', JStr ''site-1'')])]"
  have d: "detectCaptchaChallenge ?err = Some (challenge_from (JObj [(''captcha_sitekey'', JStr ''site-1'')]))"
    by (simp add: detectCaptchaChallenge_def opt_field_def)
  have b: "fst (bypassCaptcha (world_B\<lparr>now_lookup := 10000\<rparr>)
               (cacheToken Map.empty (JStr ''site-1'') ''tok-B'' 9000)
               (challenge_from (JObj [(''captcha_sitekey'', JStr ''site-1'')])) None None)
      = solved (Some ''tok-B'')"
    by (simp add: bypassCaptcha_def challenge_from_def getCachedToken_def cacheToken_def
          CACHE_LIFETIME_MS_def)
  have "claimed_response (claim_world_retry ''2025-02-02T00:00:00.000Z'') plugin_solving
      = Some response_ABCD"
    by (simp add: claimed_response_def attempt_response_def claim_world_retry_def
          claim_world_ABCD_def plugin_solving_def plugin_0_def d b has_token_def solved_def)
  moreover have "iso_now (claim_world_retry ''2025-02-02T00:00:00.000Z'') = ''2025-02-02T00:00:00.000Z''"
    by (simp add: claim_world_retry_def claim_world_ABCD_def)
  moreover have "redeemCodes plugin_solving = None"
    by (simp add: plugin_solving_def plugin_0_def)
  ultimately show ?thesis
    using claim_stored [OF claim_enter_solving, of "claim_world_retry ''2025-02-02T00:00:00.000Z''"]
    by (simp add: body_ABCD gather_ABCD claim_name_1 append_ABCD_fresh)
qed

lemma claim_example_plain:
  "redeemCodes (fst (claimQuestReward
         ((claim_world_ABCD ''2025-02-02T00:00:00.000Z'')\<lparr>post_first := Resolved response_plain\<rparr>)
         (plugin_0\<lparr>redeemCodes := stored_ABCD\<rparr>) quest_1))
     = stored_ABCD"
proof -
  let ?cw = "(claim_world_ABCD ''2025-02-02T00:00:00.000Z'')\<lparr>post_first := Resolved response_plain\<rparr>"
  have "claimed_response ?cw (plugin_0\<lparr>redeemCodes := stored_ABCD\<rparr>) = Some response_plain"
    by (simp add: claimed_response_def attempt_response_def)
  moreover have "gatherRedeemCodes (body_or_self response_plain) = []"
    by code_simp
  ultimately show ?thesis
    using claim_stored [OF claim_enter_example [of stored_ABCD], of ?cw]
    by (simp add: appendRedeemCodes_def)
qed

text \<open>
  C8. The claim holds on the code except for its last part, where the code fails it: the
  persisted list is to be free of duplicates by exact code text, and the code removes
  duplicates from the lines as a whole, which carry the timestamp of the claim. With the
  code \<^verbatim>\<open>ABCD1234\<close> persisted by an earlier claim, a claim that succeeds with the body
  \<^verbatim>\<open>{reward: {code: "ABCD1234"}}\<close> writes a second entry for it: the list then holds
  two entries whose code text is \<^verbatim>\<open>ABCD1234\<close>.
\<close>

theorem C8_same_code_twice:
  "redeemCodes (fst (claimQuestReward
       (claim_world_ABCD ''2025-02-02T00:00:00.000Z'') (plugin_0\<lparr>redeemCodes := stored_ABCD\<rparr>) quest_1))
     = Some (''ABCD1234 (Quest @ 2025-02-02T00:00:00.000Z)'' @ CHR 0x0A
             # ''ABCD1234 (Quest @ 2025-01-01T00:00:00.000Z)'')
   \<and> map entry_code (split_nl (the (redeemCodes (fst (claimQuestReward
       (claim_world_ABCD ''2025-02-02T00:00:00.000Z'') (plugin_0\<lparr>redeemCodes := stored_ABCD\<rparr>) quest_1)))))
     = [''ABCD1234'', ''ABCD1234'']
   \<and> \<not> distinct (map entry_code (split_nl (the (redeemCodes (fst (claimQuestReward
       (claim_world_ABCD ''2025-02-02T00:00:00.000Z'') (plugin_0\<lparr>redeemCodes := stored_ABCD\<rparr>) quest_1))))))"
proof -
  have "redeemCodes (fst (claimQuestReward (claim_world_ABCD ''2025-02-02T00:00:00.000Z'')
          (plugin_0\<lparr>redeemCodes := stored_ABCD\<rparr>) quest_1))
      = appendRedeemCodes [''ABCD1234''] ''Quest'' ''2025-02-02T00:00:00.000Z'' stored_ABCD"
    using claim_stored [OF claim_enter_example [of stored_ABCD],
        of "claim_world_ABCD ''2025-02-02T00:00:00.000Z''"]
    by (simp add: claimed_ABCD body_ABCD gather_ABCD claim_name_1)
  then show ?thesis
    by (simp only: append_ABCD option.sel entry_codes_ABCD) simp
qed

end
